theory Spec2Isabelle
  imports Main
begin

section \<open>Text\<close>

text \<open>
  A Python \<open>str\<close> is a sequence of Unicode code points, and \<open>len\<close>, slicing and
  \<open>in\<close> count code points. It is modelled as a list of natural numbers, one per code
  point. \<open>lit\<close> turns an ASCII literal into such a list; text outside ASCII is written
  as its code points. A list is a Python string when every element is a code point
  (\<open>wf_str\<close>).
\<close>

type_synonym ustr = "nat list"

definition lit :: "string \<Rightarrow> ustr" where
  "lit s = map of_char s"

definition wf_str :: "ustr \<Rightarrow> bool" where
  "wf_str s = list_all (\<lambda>c. c < 0x110000) s"

text \<open>\<open>s.startswith(p)\<close>, \<open>sub in s\<close>, \<open>sep.join(xs)\<close>, \<open>str(n)\<close>.\<close>

definition startswith :: "ustr \<Rightarrow> ustr \<Rightarrow> bool" where
  "startswith s p = (take (length p) s = p)"

fun contains :: "ustr \<Rightarrow> ustr \<Rightarrow> bool" where
  "contains sub [] = (sub = [])"
| "contains sub (c # cs) = (startswith (c # cs) sub \<or> contains sub cs)"

fun join :: "ustr \<Rightarrow> ustr list \<Rightarrow> ustr" where
  "join sep [] = []"
| "join sep [x] = x"
| "join sep (x # y # ys) = x @ sep @ join sep (y # ys)"

function str_nat :: "nat \<Rightarrow> ustr" where
  "str_nat n = (if n < 10 then [48 + n] else str_nat (n div 10) @ [48 + n mod 10])"
  by pat_completeness auto
termination
  by (relation "measure id") auto

declare str_nat.simps [simp del]

text \<open>
  \<open>s.strip()\<close> removes the characters for which \<open>str.isspace\<close> holds from both ends.
\<close>

definition is_space :: "nat \<Rightarrow> bool" where
  "is_space c = (c \<in> {9, 10, 11, 12, 13, 28, 29, 30, 31, 32, 0x85, 0xA0, 0x1680,
                       0x2028, 0x2029, 0x202F, 0x205F, 0x3000} \<or> (0x2000 \<le> c \<and> c \<le> 0x200A))"

definition strip :: "ustr \<Rightarrow> ustr" where
  "strip s = rev (dropWhile is_space (rev (dropWhile is_space s)))"

text \<open>
  \<open>s.split(sep)\<close> for a non-empty separator: the pieces between the non-overlapping
  occurrences of \<open>sep\<close>, found from the left. The result always has at least one piece.
\<close>

function split_acc :: "ustr \<Rightarrow> ustr \<Rightarrow> ustr \<Rightarrow> ustr list" where
  "split_acc sep acc s =
     (if s = [] then [rev acc]
      else if sep \<noteq> [] \<and> startswith s sep then rev acc # split_acc sep [] (drop (length sep) s)
      else split_acc sep (hd s # acc) (tl s))"
  by pat_completeness auto
termination
  by (relation "measure (\<lambda>(sep, acc, s). length s)") auto

declare split_acc.simps [simp del]

definition split :: "ustr \<Rightarrow> ustr \<Rightarrow> ustr list" where
  "split s sep = split_acc sep [] s"

text \<open>\<open>s.index(c)\<close> for a character that occurs in \<open>s\<close>.\<close>

definition index_of :: "nat \<Rightarrow> ustr \<Rightarrow> nat" where
  "index_of c s = length (takeWhile (\<lambda>x. x \<noteq> c) s)"

section \<open>Exceptions\<close>

text \<open>
  The exception classes the scripts distinguish are Playwright's \<open>TimeoutError\<close>,
  \<open>ImportError\<close> and every other \<open>Exception\<close>; each carries the text \<open>str(e)\<close>.
\<close>

datatype exn = PlaywrightTimeout ustr | ImportError ustr | Exception ustr

fun str_exn :: "exn \<Rightarrow> ustr" where
  "str_exn (PlaywrightTimeout m) = m"
| "str_exn (ImportError m) = m"
| "str_exn (Exception m) = m"

section \<open>Percent-encoding: \<open>urllib.parse.quote\<close> and \<open>unquote\<close>\<close>

text \<open>
  \<open>quote(value, safe='')\<close> encodes the string as UTF-8 (strictly: a lone surrogate
  raises \<open>UnicodeEncodeError\<close>) and writes every byte outside the unreserved set
  \<open>A-Z a-z 0-9 _ . - ~\<close> as \<open>%XX\<close> with upper-case hexadecimal digits.
\<close>

definition is_surrogate :: "nat \<Rightarrow> bool" where
  "is_surrogate c = (0xD800 \<le> c \<and> c \<le> 0xDFFF)"

definition utf8_char :: "nat \<Rightarrow> nat list" where
  "utf8_char c =
     (if c < 0x80 then [c]
      else if c < 0x800 then [0xC0 + c div 64, 0x80 + c mod 64]
      else if c < 0x10000 then [0xE0 + c div 4096, 0x80 + (c div 64) mod 64, 0x80 + c mod 64]
      else [0xF0 + c div 262144, 0x80 + (c div 4096) mod 64, 0x80 + (c div 64) mod 64,
            0x80 + c mod 64])"

definition hex_lower :: "nat \<Rightarrow> nat" where
  "hex_lower n = (if n < 10 then 48 + n else 87 + n)"

text \<open>
  The message of the \<open>UnicodeEncodeError\<close> for a run of \<open>n + 1\<close> surrogates that
  starts with \<open>c\<close> at position \<open>i\<close>.
\<close>

definition encode_error_msg :: "nat \<Rightarrow> nat \<Rightarrow> nat \<Rightarrow> ustr" where
  "encode_error_msg i c n =
     (if n = 0 then
        [0x27] @ lit ''utf-8'' @ [0x27] @ lit '' codec can'' @ [0x27] @
        lit ''t encode character '' @ [0x27, 0x5C] @ lit ''u'' @
        map hex_lower [c div 4096 mod 16, c div 256 mod 16, c div 16 mod 16, c mod 16] @
        [0x27] @ lit '' in position '' @ str_nat i @ lit '': surrogates not allowed''
      else
        [0x27] @ lit ''utf-8'' @ [0x27] @ lit '' codec can'' @ [0x27] @
        lit ''t encode characters in position '' @ str_nat i @ lit ''-'' @ str_nat (i + n) @
        lit '': surrogates not allowed'')"

fun utf8_encode_from :: "nat \<Rightarrow> ustr \<Rightarrow> exn + nat list" where
  "utf8_encode_from i [] = Inr []"
| "utf8_encode_from i (c # cs) =
     (if is_surrogate c
      then Inl (Exception (encode_error_msg i c (length (takeWhile is_surrogate cs))))
      else (case utf8_encode_from (Suc i) cs of
              Inl e \<Rightarrow> Inl e
            | Inr bs \<Rightarrow> Inr (utf8_char c @ bs)))"

definition utf8_encode :: "ustr \<Rightarrow> exn + nat list" where
  "utf8_encode s = utf8_encode_from 0 s"

definition always_safe :: "nat \<Rightarrow> bool" where
  "always_safe b = ((65 \<le> b \<and> b \<le> 90) \<or> (97 \<le> b \<and> b \<le> 122) \<or> (48 \<le> b \<and> b \<le> 57) \<or>
                    b = 95 \<or> b = 46 \<or> b = 45 \<or> b = 126)"

definition hex_upper :: "nat \<Rightarrow> nat" where
  "hex_upper n = (if n < 10 then 48 + n else 55 + n)"

definition quote_byte :: "nat \<Rightarrow> ustr" where
  "quote_byte b = (if always_safe b then [b] else [37, hex_upper (b div 16), hex_upper (b mod 16)])"

definition quote :: "ustr \<Rightarrow> exn + ustr" where
  "quote s = (case utf8_encode s of Inl e \<Rightarrow> Inl e | Inr bs \<Rightarrow> Inr (concat (map quote_byte bs)))"

text \<open>
  \<open>unquote(s)\<close> leaves the non-ASCII stretches of \<open>s\<close> alone. In every maximal ASCII
  stretch it replaces each \<open>%\<close> followed by two hexadecimal digits (either case) by that
  byte, keeps any other \<open>%\<close>, and decodes the resulting bytes as UTF-8 with
  \<open>errors='replace'\<close>: every maximal ill-formed part becomes U+FFFD.
\<close>

definition hex_val :: "nat \<Rightarrow> nat option" where
  "hex_val c =
     (if 48 \<le> c \<and> c \<le> 57 then Some (c - 48)
      else if 65 \<le> c \<and> c \<le> 70 then Some (c - 55)
      else if 97 \<le> c \<and> c \<le> 102 then Some (c - 87)
      else None)"

fun unquote_to_bytes :: "ustr \<Rightarrow> nat list" where
  "unquote_to_bytes (c # h1 # h2 # rest) =
     (if c = 37 then
        (case (hex_val h1, hex_val h2) of
           (Some a, Some b) \<Rightarrow> (16 * a + b) # unquote_to_bytes rest
         | _ \<Rightarrow> c # unquote_to_bytes (h1 # h2 # rest))
      else c # unquote_to_bytes (h1 # h2 # rest))"
| "unquote_to_bytes cs = cs"

definition is_cont :: "nat \<Rightarrow> bool" where
  "is_cont b = (0x80 \<le> b \<and> b < 0xC0)"

text \<open>The second byte a three-byte or four-byte lead byte admits.\<close>

definition second_ok :: "nat \<Rightarrow> nat \<Rightarrow> bool" where
  "second_ok b c =
     (is_cont c \<and>
      (b = 0xE0 \<longrightarrow> 0xA0 \<le> c) \<and> (b = 0xED \<longrightarrow> c < 0xA0) \<and>
      (b = 0xF0 \<longrightarrow> 0x90 \<le> c) \<and> (b = 0xF4 \<longrightarrow> c < 0x90))"

definition replacement :: nat where
  "replacement = 0xFFFD"

fun utf8_decode :: "nat list \<Rightarrow> ustr" where
  "utf8_decode [] = []"
| "utf8_decode (b # bs) =
     (if b < 0x80 then b # utf8_decode bs
      else if b < 0xC2 then replacement # utf8_decode bs
      else if b < 0xE0 then
        (case bs of
           [] \<Rightarrow> [replacement]
         | c1 # r1 \<Rightarrow>
             if is_cont c1 then ((b - 0xC0) * 64 + (c1 - 0x80)) # utf8_decode r1
             else replacement # utf8_decode bs)
      else if b < 0xF0 then
        (case bs of
           [] \<Rightarrow> [replacement]
         | c1 # r1 \<Rightarrow>
             if \<not> second_ok b c1 then replacement # utf8_decode bs
             else (case r1 of
                     [] \<Rightarrow> [replacement]
                   | c2 # r2 \<Rightarrow>
                       if is_cont c2
                       then ((b - 0xE0) * 4096 + (c1 - 0x80) * 64 + (c2 - 0x80)) # utf8_decode r2
                       else replacement # utf8_decode r1))
      else if b < 0xF5 then
        (case bs of
           [] \<Rightarrow> [replacement]
         | c1 # r1 \<Rightarrow>
             if \<not> second_ok b c1 then replacement # utf8_decode bs
             else (case r1 of
                     [] \<Rightarrow> [replacement]
                   | c2 # r2 \<Rightarrow>
                       if \<not> is_cont c2 then replacement # utf8_decode r1
                       else (case r2 of
                               [] \<Rightarrow> [replacement]
                             | c3 # r3 \<Rightarrow>
                                 if is_cont c3
                                 then ((b - 0xF0) * 262144 + (c1 - 0x80) * 4096 +
                                       (c2 - 0x80) * 64 + (c3 - 0x80)) # utf8_decode r3
                                 else replacement # utf8_decode r2)))
      else replacement # utf8_decode bs)"

definition is_ascii :: "nat \<Rightarrow> bool" where
  "is_ascii c = (c < 0x80)"

function unquote :: "ustr \<Rightarrow> ustr" where
  "unquote s =
     (if s = [] then []
      else if is_ascii (hd s)
      then utf8_decode (unquote_to_bytes (takeWhile is_ascii s)) @ unquote (dropWhile is_ascii s)
      else takeWhile (\<lambda>c. \<not> is_ascii c) s @ unquote (dropWhile (\<lambda>c. \<not> is_ascii c) s))"
  by pat_completeness auto
termination
proof (relation "measure length")
  show "wf (measure length)" by simp
next
  fix s :: ustr
  assume "s \<noteq> []" "is_ascii (hd s)"
  then have "dropWhile is_ascii s = dropWhile is_ascii (tl s)"
    by (cases s) auto
  moreover have "length (dropWhile is_ascii (tl s)) \<le> length (tl s)"
    by (rule length_dropWhile_le)
  ultimately show "(dropWhile is_ascii s, s) \<in> measure length"
    using \<open>s \<noteq> []\<close> by (cases s) auto
next
  fix s :: ustr
  assume "s \<noteq> []" "\<not> is_ascii (hd s)"
  then have "dropWhile (\<lambda>c. \<not> is_ascii c) s = dropWhile (\<lambda>c. \<not> is_ascii c) (tl s)"
    by (cases s) auto
  moreover have "length (dropWhile (\<lambda>c. \<not> is_ascii c) (tl s)) \<le> length (tl s)"
    by (rule length_dropWhile_le)
  ultimately show "(dropWhile (\<lambda>c. \<not> is_ascii c) s, s) \<in> measure length"
    using \<open>s \<noteq> []\<close> by (cases s) auto
qed

declare unquote.simps [simp del]

section \<open>Cookies\<close>

record cookie =
  cookie_name :: ustr
  cookie_value :: ustr
  cookie_domain :: ustr
  cookie_path :: ustr
  cookie_secure :: bool
  cookie_httpOnly :: bool
  cookie_sameSite :: ustr

subsection \<open>\<open>mask_id\<close> and \<open>mask_cookie_value\<close>\<close>

definition mask_id :: "ustr \<Rightarrow> ustr" where
  "mask_id server_id =
     (if server_id = [] \<or> length server_id \<le> 4 then server_id
      else take 2 server_id @ replicate (length server_id - 4) 42 @
           drop (length server_id - 2) server_id)"

definition mask_cookie_value :: "ustr \<Rightarrow> nat \<Rightarrow> ustr" where
  "mask_cookie_value v show_chars =
     (if length v \<le> show_chars * 2 then v
      else take show_chars v @ lit ''...'' @
           (if show_chars = 0 then v else drop (length v - show_chars) v))"

subsection \<open>\<open>parse_cookie_string\<close>: the cookies it returns\<close>

text \<open>The table \<open>cookie_configs\<close>: prefix, then \<open>httpOnly\<close>, \<open>secure\<close>, \<open>sameSite\<close>.\<close>

definition cookie_configs :: "(ustr \<times> bool \<times> bool \<times> ustr) list" where
  "cookie_configs =
     [(lit ''remember_web'', True, True, lit ''Lax''),
      (lit ''pterodactyl_session'', True, True, lit ''Lax''),
      (lit ''XSRF-TOKEN'', False, True, lit ''Lax''),
      (lit ''cf_clearance'', True, True, lit ''None''),
      (lit ''__cf_bm'', True, True, lit ''None''),
      (lit ''_ga'', False, False, lit ''Lax''),
      (lit ''_ga_'', False, False, lit ''Lax''),
      (lit ''cookie-dialog'', False, False, lit ''Lax''),
      (lit ''filemode'', False, False, lit ''Lax'')]"

definition config_for :: "ustr \<Rightarrow> bool \<times> bool \<times> ustr" where
  "config_for n =
     (case find (\<lambda>(p, cfg). n = p \<or> startswith n p) cookie_configs of
        Some (p, cfg) \<Rightarrow> cfg
      | None \<Rightarrow> (False, True, lit ''Lax''))"

text \<open>One turn of the loop over \<open>cookie_str.split(";")\<close>; \<open>None\<close> is \<open>continue\<close>.\<close>

definition parse_cookie_item :: "ustr \<Rightarrow> ustr \<Rightarrow> cookie option" where
  "parse_cookie_item domain item0 =
     (let item = strip item0 in
      if item = [] \<or> \<not> contains (lit ''='') item then None
      else
        let eq_index = index_of 61 item;
            n = strip (take eq_index item);
            v = unquote (strip (drop (eq_index + 1) item));
            cfg = config_for n
        in Some \<lparr>cookie_name = n, cookie_value = v, cookie_domain = domain,
                  cookie_path = lit ''/'', cookie_secure = fst (snd cfg),
                  cookie_httpOnly = fst cfg, cookie_sameSite = snd (snd cfg)\<rparr>)"

definition parse_cookies :: "ustr \<Rightarrow> ustr \<Rightarrow> cookie list" where
  "parse_cookies cookie_str domain =
     (if cookie_str = [] then []
      else List.map_filter (parse_cookie_item domain) (split cookie_str (lit '';'')))"

subsection \<open>\<open>save_cookies_for_update\<close>: filter, order, serialise\<close>

definition important_names :: "ustr list" where
  "important_names =
     [lit ''remember_web'', lit ''XSRF-TOKEN'', lit ''pterodactyl_session'', lit ''cf_clearance'',
      lit ''__cf_bm'', lit ''_ga'', lit ''cookie-dialog'', lit ''filemode'']"

definition important :: "cookie \<Rightarrow> bool" where
  "important c = list_ex (\<lambda>p. cookie_name c = p \<or> startswith (cookie_name c) p) important_names"

definition cookie_sort_key :: "cookie \<Rightarrow> nat" where
  "cookie_sort_key c =
     (if startswith (cookie_name c) (lit ''remember_web'') then 0
      else if cookie_name c = lit ''pterodactyl_session'' then 1
      else if cookie_name c = lit ''XSRF-TOKEN'' then 2
      else if startswith (cookie_name c) (lit ''cf_'') then 3
      else 10)"

text \<open>The list \<open>filtered\<close> after \<open>filtered.sort(key=sort_key)\<close>; the sort is stable.\<close>

definition filtered_sorted :: "cookie list \<Rightarrow> cookie list" where
  "filtered_sorted cookies = sort_key cookie_sort_key (filter important cookies)"

text \<open>
  The loop that builds \<open>cookie_parts\<close>: the first value that cannot be encoded raises.
\<close>

fun cookie_parts :: "cookie list \<Rightarrow> exn + ustr list" where
  "cookie_parts [] = Inr []"
| "cookie_parts (c # cs) =
     (case quote (cookie_value c) of
        Inl e \<Rightarrow> Inl e
      | Inr encoded_value \<Rightarrow>
          (case cookie_parts cs of
             Inl e \<Rightarrow> Inl e
           | Inr ps \<Rightarrow> Inr ((cookie_name c @ lit ''='' @ encoded_value) # ps)))"

section \<open>Effects: the browser, the network, the file system and the log\<close>

text \<open>
  Both scripts drive external collaborators: the Playwright page, the file system, HTTP
  clients. Every such call may change the outside world and may raise. The outside
  world is a value of an arbitrary type \<open>'w\<close>; a collaborator operation maps a world to a
  result (\<open>Inl\<close> an exception, \<open>Inr\<close> a value) and a new world. A computation of the
  program maps a world to its result, the new world and the list of events it produced:
  the lines it logged and the collaborator calls it made, each with a flag telling
  whether the call returned normally.
\<close>

text \<open>\<open>page.locator(sel)\<close> and \<open>page.locator(sel).first\<close>.\<close>

datatype locator = Locator ustr | First ustr

datatype call =
    Launch
  | Mkdir ustr
  | Goto ustr
  | WaitForTimeout nat
  | WaitForLoadState ustr
  | WaitForSelector ustr
  | Count locator
  | GetAttribute locator ustr
  | InnerText locator
  | TextContent locator
  | Click locator
  | Fill locator ustr
  | Press locator ustr
  | KeyboardType ustr
  | KeyboardPress ustr
  | IsVisible locator
  | Screenshot ustr
  | Title
  | RemoveListener
  | AddCookies "cookie list"
  | Cookies
  | ContextClose
  | BrowserClose
  | WriteText ustr ustr
  | HttpPost ustr "(ustr \<times> ustr) list" "ustr option"
  | PutSecret ustr ustr ustr ustr
  | Sleep nat

datatype event = Log ustr ustr | Call call bool

text \<open>A discovered server: \<open>{"id": ..., "name": ..., "url": ...}\<close>.\<close>

record server =
  server_id :: ustr
  server_name :: ustr
  server_url :: ustr

text \<open>
  The collaborators. \<open>drv_environ\<close> is \<open>os.environ\<close>. \<open>drv_url\<close>, \<open>drv_exists\<close>,
  \<open>drv_now\<close> and \<open>drv_absolute\<close> read the world (\<open>page.url\<close>, \<open>Path.exists\<close>, the
  formatted \<open>datetime.now()\<close>, \<open>Path.absolute\<close>) and neither change it nor raise.
  \<open>drv_launch\<close> stands for starting Playwright, the browser, the context and the page and
  registering the response listener. \<open>drv_http_post\<close> is \<open>requests.post\<close> or
  \<open>httpx.post\<close> with the URL, the fields sent and the attached file (opened for the
  call); it returns the status code and the body. \<open>drv_put_secret\<close> is the body of the
  \<open>try\<close> block of \<open>update_github_secret\<close>: the NaCl import, fetching the public key,
  sealing and the \<open>PUT\<close>. \<open>drv_inventory\<close> is what the response listener extracts
  from the first inventory response that arrives while the base address loads (\<open>None\<close>
  when none arrives): the display name and the identifier of every server entry with a
  non-empty identifier.
  \<open>drv_decimal\<close> is the interpreter's table of Unicode decimal digits (what \<open>\d\<close>
  matches and \<open>float\<close> reads), \<open>drv_lower\<close> is \<open>str.lower\<close> and \<open>drv_scrub\<close> is
  the \<open>re.sub\<close> call of \<open>execute_account\<close>.
\<close>

record 'w driver =
  drv_environ :: "ustr \<Rightarrow> ustr option"
  drv_decimal :: "nat \<Rightarrow> nat option"
  drv_lower :: "ustr \<Rightarrow> ustr"
  drv_scrub :: "ustr \<Rightarrow> ustr"
  drv_url :: "'w \<Rightarrow> ustr"
  drv_exists :: "ustr \<Rightarrow> 'w \<Rightarrow> bool"
  drv_now :: "'w \<Rightarrow> ustr"
  drv_absolute :: "ustr \<Rightarrow> 'w \<Rightarrow> ustr"
  drv_inventory :: "'w \<Rightarrow> (ustr \<times> ustr) list option"
  drv_sleep :: "nat \<Rightarrow> 'w \<Rightarrow> 'w"
  drv_launch :: "'w \<Rightarrow> (exn + unit) \<times> 'w"
  drv_mkdir :: "ustr \<Rightarrow> 'w \<Rightarrow> (exn + unit) \<times> 'w"
  drv_goto :: "ustr \<Rightarrow> 'w \<Rightarrow> (exn + unit) \<times> 'w"
  drv_wait_for_timeout :: "nat \<Rightarrow> 'w \<Rightarrow> (exn + unit) \<times> 'w"
  drv_wait_for_load_state :: "ustr \<Rightarrow> 'w \<Rightarrow> (exn + unit) \<times> 'w"
  drv_wait_for_selector :: "ustr \<Rightarrow> 'w \<Rightarrow> (exn + unit) \<times> 'w"
  drv_count :: "locator \<Rightarrow> 'w \<Rightarrow> (exn + nat) \<times> 'w"
  drv_get_attribute :: "locator \<Rightarrow> ustr \<Rightarrow> 'w \<Rightarrow> (exn + ustr option) \<times> 'w"
  drv_inner_text :: "locator \<Rightarrow> 'w \<Rightarrow> (exn + ustr) \<times> 'w"
  drv_text_content :: "locator \<Rightarrow> 'w \<Rightarrow> (exn + ustr option) \<times> 'w"
  drv_click :: "locator \<Rightarrow> 'w \<Rightarrow> (exn + unit) \<times> 'w"
  drv_fill :: "locator \<Rightarrow> ustr \<Rightarrow> 'w \<Rightarrow> (exn + unit) \<times> 'w"
  drv_press :: "locator \<Rightarrow> ustr \<Rightarrow> 'w \<Rightarrow> (exn + unit) \<times> 'w"
  drv_keyboard_type :: "ustr \<Rightarrow> 'w \<Rightarrow> (exn + unit) \<times> 'w"
  drv_keyboard_press :: "ustr \<Rightarrow> 'w \<Rightarrow> (exn + unit) \<times> 'w"
  drv_is_visible :: "locator \<Rightarrow> 'w \<Rightarrow> (exn + bool) \<times> 'w"
  drv_screenshot :: "ustr \<Rightarrow> 'w \<Rightarrow> (exn + unit) \<times> 'w"
  drv_title :: "'w \<Rightarrow> (exn + ustr) \<times> 'w"
  drv_remove_listener :: "'w \<Rightarrow> (exn + unit) \<times> 'w"
  drv_add_cookies :: "cookie list \<Rightarrow> 'w \<Rightarrow> (exn + unit) \<times> 'w"
  drv_cookies :: "'w \<Rightarrow> (exn + cookie list) \<times> 'w"
  drv_context_close :: "'w \<Rightarrow> (exn + unit) \<times> 'w"
  drv_browser_close :: "'w \<Rightarrow> (exn + unit) \<times> 'w"
  drv_write_text :: "ustr \<Rightarrow> ustr \<Rightarrow> 'w \<Rightarrow> (exn + unit) \<times> 'w"
  drv_http_post ::
    "ustr \<Rightarrow> (ustr \<times> ustr) list \<Rightarrow> ustr option \<Rightarrow> 'w \<Rightarrow> (exn + nat \<times> ustr) \<times> 'w"
  drv_put_secret :: "ustr \<Rightarrow> ustr \<Rightarrow> ustr \<Rightarrow> ustr \<Rightarrow> 'w \<Rightarrow> (exn + unit) \<times> 'w"

type_synonym ('w, 'a) io = "'w \<Rightarrow> (exn + 'a) \<times> 'w \<times> event list"

definition result :: "(exn + 'a) \<times> 'w \<times> event list \<Rightarrow> exn + 'a" where
  "result x = fst x"

definition events :: "(exn + 'a) \<times> 'w \<times> event list \<Rightarrow> event list" where
  "events x = snd (snd x)"

definition ret :: "'a \<Rightarrow> ('w, 'a) io" where
  "ret x w = (Inr x, w, [])"

definition raise :: "exn \<Rightarrow> ('w, 'a) io" where
  "raise e w = (Inl e, w, [])"

text \<open>Sequencing: an exception of the first part skips the second.\<close>

definition bind :: "('w, 'a) io \<Rightarrow> ('a \<Rightarrow> ('w, 'b) io) \<Rightarrow> ('w, 'b) io" where
  "bind m f w =
     (case m w of
        (Inl e, w', es) \<Rightarrow> (Inl e, w', es)
      | (Inr x, w', es) \<Rightarrow> (case f x w' of (r, w'', es') \<Rightarrow> (r, w'', es @ es')))"

text \<open>
  \<open>try: x = m; (rest: k x)  except Exception as e: h e\<close>, where the handler covers
  \<open>m\<close> only. A \<open>try\<close> block whose handler reads variables the block assigns is written
  as a chain of such steps, each with the handler for the values assigned so far.
\<close>

definition try_step ::
  "('w, 'a) io \<Rightarrow> (exn \<Rightarrow> ('w, 'b) io) \<Rightarrow> ('a \<Rightarrow> ('w, 'b) io) \<Rightarrow> ('w, 'b) io" where
  "try_step m h k w =
     (case m w of
        (Inl e, w', es) \<Rightarrow> (case h e w' of (r, w'', es') \<Rightarrow> (r, w'', es @ es'))
      | (Inr x, w', es) \<Rightarrow> (case k x w' of (r, w'', es') \<Rightarrow> (r, w'', es @ es')))"

text \<open>\<open>try: m  except Exception as e: h e\<close>\<close>

definition catch :: "('w, 'a) io \<Rightarrow> (exn \<Rightarrow> ('w, 'a) io) \<Rightarrow> ('w, 'a) io" where
  "catch m h = try_step m h ret"

text \<open>\<open>try: m  finally: f\<close>: \<open>f\<close> runs in either case; if it raises, its exception wins.\<close>

definition try_finally :: "('w, 'a) io \<Rightarrow> ('w, unit) io \<Rightarrow> ('w, 'a) io" where
  "try_finally m f w =
     (case m w of
        (r, w', es) \<Rightarrow>
          (case f w' of
             (Inl e, w'', es') \<Rightarrow> (Inl e, w'', es @ es')
           | (Inr u, w'', es') \<Rightarrow> (r, w'', es @ es')))"

definition emit :: "event \<Rightarrow> ('w, unit) io" where
  "emit ev w = (Inr (), w, [ev])"

definition is_ok :: "'e + 'a \<Rightarrow> bool" where
  "is_ok r = (case r of Inl e \<Rightarrow> False | Inr x \<Rightarrow> True)"

definition perform :: "call \<Rightarrow> ('w \<Rightarrow> (exn + 'a) \<times> 'w) \<Rightarrow> ('w, 'a) io" where
  "perform c op w = (case op w of (r, w') \<Rightarrow> (r, w', [Call c (is_ok r)]))"

definition observe :: "('w \<Rightarrow> 'a) \<Rightarrow> ('w, 'a) io" where
  "observe f w = (Inr (f w), w, [])"

text \<open>
  \<open>log(level, msg)\<close> prints one line. The timestamp it prefixes is left out; the level
  and the message are recorded.
\<close>

definition log :: "ustr \<Rightarrow> ustr \<Rightarrow> ('w, unit) io" where
  "log level msg = emit (Log level msg)"

definition INFO :: ustr where "INFO = lit ''INFO''"
definition WARN :: ustr where "WARN = lit ''WARN''"
definition ERROR :: ustr where "ERROR = lit ''ERROR''"
definition DEBUG :: ustr where "DEBUG = lit ''DEBUG''"

definition page_goto :: "'w driver \<Rightarrow> ustr \<Rightarrow> ('w, unit) io" where
  "page_goto dr url = perform (Goto url) (drv_goto dr url)"

definition wait_for_timeout :: "'w driver \<Rightarrow> nat \<Rightarrow> ('w, unit) io" where
  "wait_for_timeout dr ms = perform (WaitForTimeout ms) (drv_wait_for_timeout dr ms)"

definition locator_count :: "'w driver \<Rightarrow> locator \<Rightarrow> ('w, nat) io" where
  "locator_count dr l = perform (Count l) (drv_count dr l)"

definition get_attribute :: "'w driver \<Rightarrow> locator \<Rightarrow> ustr \<Rightarrow> ('w, ustr option) io" where
  "get_attribute dr l a = perform (GetAttribute l a) (drv_get_attribute dr l a)"

definition inner_text :: "'w driver \<Rightarrow> locator \<Rightarrow> ('w, ustr) io" where
  "inner_text dr l = perform (InnerText l) (drv_inner_text dr l)"

definition click :: "'w driver \<Rightarrow> locator \<Rightarrow> ('w, unit) io" where
  "click dr l = perform (Click l) (drv_click dr l)"

definition is_visible :: "'w driver \<Rightarrow> locator \<Rightarrow> ('w, bool) io" where
  "is_visible dr l = perform (IsVisible l) (drv_is_visible dr l)"

definition page_screenshot :: "'w driver \<Rightarrow> ustr \<Rightarrow> ('w, unit) io" where
  "page_screenshot dr p = perform (Screenshot p) (drv_screenshot dr p)"

text \<open>
  The weakest precondition of a computation: \<open>wp m Q w\<close> holds when running \<open>m\<close> in
  world \<open>w\<close> gives a result, a world and events that satisfy \<open>Q\<close>.
\<close>

definition wp ::
  "('w, 'a) io \<Rightarrow> ((exn + 'a) \<Rightarrow> 'w \<Rightarrow> event list \<Rightarrow> bool) \<Rightarrow> 'w \<Rightarrow> bool" where
  "wp m Q w = (case m w of (r, w', es) \<Rightarrow> Q r w' es)"

section \<open>State inspection and restart: \<open>check_need_restart\<close>, \<open>do_restart\<close>\<close>

definition power_start :: ustr where "power_start = lit ''#power-start''"
definition power_stop :: ustr where "power_stop = lit ''#power-stop''"
definition power_restart :: ustr where "power_restart = lit ''#power-restart''"
definition disabled :: ustr where "disabled = lit ''disabled''"

definition msg_stopped_start :: ustr where
  "msg_stopped_start = [0x1F534] @ lit '' '' @
     [0x670D, 0x52A1, 0x5668, 0x5DF2, 0x505C, 0x6B62, 0xFF0C, 0x9700, 0x8981, 0x542F, 0x52A8]"

definition msg_stopped_stop :: ustr where
  "msg_stopped_stop = [0x1F534] @ lit '' '' @
     [0x670D, 0x52A1, 0x5668, 0x5DF2, 0x505C, 0x6B62, 0xFF08] @ lit ''Stop'' @
     [0x6309, 0x94AE, 0x7981, 0x7528, 0xFF09, 0xFF0C, 0x9700, 0x8981, 0x542F, 0x52A8]"

definition msg_running :: ustr where
  "msg_running = [0x1F7E2] @ lit '' '' @ [0x670D, 0x52A1, 0x5668, 0x6B63, 0x5728, 0x8FD0, 0x884C]"

definition msg_check_restart_failed :: ustr where
  "msg_check_restart_failed =
     [0x68C0, 0x67E5, 0x91CD, 0x542F, 0x72B6, 0x6001, 0x5931, 0x8D25] @ lit '': ''"

text \<open>
  The second half of the \<open>try\<close> block of \<open>check_need_restart\<close>: the stop control, then
  the verdict "running".
\<close>

definition check_stop_btn :: "'w driver \<Rightarrow> ('w, bool) io" where
  "check_stop_btn dr =
     bind (locator_count dr (Locator power_stop)) (\<lambda>n.
       if n > 0 then
         bind (get_attribute dr (Locator power_stop) disabled) (\<lambda>a.
           if a \<noteq> None then bind (log INFO msg_stopped_stop) (\<lambda>u. ret True)
           else bind (log INFO msg_running) (\<lambda>u. ret False))
       else bind (log INFO msg_running) (\<lambda>u. ret False))"

definition check_need_restart :: "'w driver \<Rightarrow> ('w, bool) io" where
  "check_need_restart dr =
     catch
       (bind (locator_count dr (Locator power_start)) (\<lambda>n.
          if n > 0 then
            bind (get_attribute dr (Locator power_start) disabled) (\<lambda>a.
              if a = None then bind (log INFO msg_stopped_start) (\<lambda>u. ret True)
              else check_stop_btn dr)
          else check_stop_btn dr))
       (\<lambda>e. bind (log WARN (msg_check_restart_failed @ str_exn e)) (\<lambda>u. ret False))"

text \<open>
  The decision policy in the specification's words. A control is absent (\<open>None\<close>) or
  present with its disabled flag.
\<close>

definition restart_needed :: "bool option \<Rightarrow> bool option \<Rightarrow> bool" where
  "restart_needed start stop = (start = Some False \<or> stop = Some True)"

definition control :: "nat \<Rightarrow> ustr option \<Rightarrow> bool option" where
  "control n a = (if n > 0 then Some (a \<noteq> None) else None)"

text \<open>
  The page answers the reads of the inspection without raising: \<open>sc\<close> and \<open>pc\<close>
  elements match the start and the stop selector, \<open>sa\<close> and \<open>pa\<close> are their
  \<open>disabled\<close> attributes. An attribute is read only when its control exists.
\<close>

definition controls_read ::
  "'w driver \<Rightarrow> 'w \<Rightarrow> nat \<Rightarrow> ustr option \<Rightarrow> nat \<Rightarrow> ustr option \<Rightarrow> bool" where
  "controls_read dr w sc sa pc pa =
     (\<exists>w1 w2 w3 w4.
        drv_count dr (Locator power_start) w = (Inr sc, w1) \<and>
        (if sc > 0 then drv_get_attribute dr (Locator power_start) disabled w1 = (Inr sa, w2)
         else w2 = w1) \<and>
        drv_count dr (Locator power_stop) w2 = (Inr pc, w3) \<and>
        (if pc > 0 then drv_get_attribute dr (Locator power_stop) disabled w3 = (Inr pa, w4)
         else w4 = w3))"

definition some_call_raised :: "event list \<Rightarrow> bool" where
  "some_call_raised es = (\<exists>c. Call c False \<in> set es)"

section \<open>Environment, paths and cookie handling\<close>

definition env_or_default :: "'w driver \<Rightarrow> ustr \<Rightarrow> ustr \<Rightarrow> ustr" where
  "env_or_default dr n d = (case drv_environ dr n of None \<Rightarrow> d | Some v \<Rightarrow> v)"

text \<open>
  \<open>env_or_throw\<close> raises \<open>ValueError\<close>, which \<open>main\<close> catches at once; the error is
  the message.
\<close>

definition env_or_throw :: "'w driver \<Rightarrow> ustr \<Rightarrow> ustr + ustr" where
  "env_or_throw dr n =
     (case drv_environ dr n of
        None \<Rightarrow> Inl ([0x73AF, 0x5883, 0x53D8, 0x91CF] @ lit '' '' @ n @ lit '' '' @
                     [0x672A, 0x8BBE, 0x7F6E])
      | Some v \<Rightarrow>
          if v = [] then Inl ([0x73AF, 0x5883, 0x53D8, 0x91CF] @ lit '' '' @ n @ lit '' '' @
                              [0x672A, 0x8BBE, 0x7F6E])
          else Inr v)"

definition OUTPUT_DIR :: ustr where
  "OUTPUT_DIR = lit ''output/screenshots''"

definition BASE_URL :: ustr where
  "BASE_URL = lit ''https://panel.bytte.cloud''"

definition ensure_output_dir :: "'w driver \<Rightarrow> ('w, unit) io" where
  "ensure_output_dir dr =
     bind (perform (Mkdir OUTPUT_DIR) (drv_mkdir dr OUTPUT_DIR)) (\<lambda>u.
     bind (observe (drv_absolute dr OUTPUT_DIR)) (\<lambda>p.
       log INFO ([0x8F93, 0x51FA, 0x76EE, 0x5F55] @ lit '': '' @ p)))"

definition screenshot_path :: "ustr \<Rightarrow> ustr" where
  "screenshot_path n = OUTPUT_DIR @ lit ''/'' @ n @ lit ''.png''"

fun log_all :: "ustr \<Rightarrow> ustr list \<Rightarrow> ('w, unit) io" where
  "log_all level [] = ret ()"
| "log_all level (m # ms) = bind (log level m) (\<lambda>u. log_all level ms)"

text \<open>
  \<open>parse_cookie_string\<close>: the cookies are those of \<open>parse_cookies\<close>; one \<open>DEBUG\<close>
  line is logged per cookie, then their number.
\<close>

definition parse_cookie_string :: "ustr \<Rightarrow> ustr \<Rightarrow> ('w, cookie list) io" where
  "parse_cookie_string cookie_str domain =
     (if cookie_str = [] then ret []
      else
        let cookies = parse_cookies cookie_str domain in
        bind (log_all DEBUG
                (map (\<lambda>c. lit ''  Cookie: '' @ cookie_name c @ lit '' = '' @
                           mask_cookie_value (cookie_value c) 15) cookies)) (\<lambda>u.
        bind (log INFO ([0x89E3, 0x6790, 0x5230] @ lit '' '' @ str_nat (length cookies) @
                        lit '' '' @ [0x4E2A] @ lit '' Cookie'')) (\<lambda>u.
        ret cookies)))"

definition new_cookies_file :: ustr where
  "new_cookies_file = OUTPUT_DIR @ lit ''/new_cookies.txt''"

definition save_cookies_for_update :: "'w driver \<Rightarrow> cookie list \<Rightarrow> ('w, ustr) io" where
  "save_cookies_for_update dr cookies =
     (if filter important cookies = [] then
        bind (log WARN ([0x6CA1, 0x6709, 0x627E, 0x5230, 0x4EFB, 0x4F55, 0x91CD, 0x8981] @
                        lit '' Cookie'')) (\<lambda>u. ret [])
      else
        let filtered = filtered_sorted cookies in
        (case cookie_parts filtered of
           Inl e \<Rightarrow> raise e
         | Inr parts \<Rightarrow>
             let cookie_string = join (lit ''; '') parts in
             bind (perform (WriteText new_cookies_file cookie_string)
                     (drv_write_text dr new_cookies_file cookie_string)) (\<lambda>u.
             bind (log INFO ([0x65B0] @ lit '' Cookie '' @
                             [0x5DF2, 0x4FDD, 0x5B58, 0x5230, 0x6587, 0x4EF6] @ lit '' ('' @
                             str_nat (length filtered) @ lit '' '' @ [0x4E2A] @ lit '')'')) (\<lambda>u.
             bind (log INFO (lit ''Cookie '' @ [0x6458, 0x8981] @ lit '':'')) (\<lambda>u.
             bind (log_all INFO
                     (map (\<lambda>c. lit ''  - '' @ cookie_name c @ lit '': '' @
                                mask_cookie_value (cookie_value c) 10) (take 5 filtered))) (\<lambda>u.
             bind (if length filtered > 5
                   then log INFO (lit ''  ... '' @ [0x8FD8, 0x6709] @ lit '' '' @
                                  str_nat (length filtered - 5) @ lit '' '' @ [0x4E2A])
                   else ret ()) (\<lambda>u.
             ret cookie_string)))))))"

definition update_github_secret :: "'w driver \<Rightarrow> ustr \<Rightarrow> ustr \<Rightarrow> ('w, bool) io" where
  "update_github_secret dr secret_name secret_value =
     (let repo_token = env_or_default dr (lit ''REPO_TOKEN'') [] in
      if repo_token = [] then
        bind (log WARN (lit ''REPO_TOKEN '' @ [0x672A, 0x8BBE, 0x7F6E, 0xFF0C, 0x8DF3, 0x8FC7] @
                        lit '' Secret '' @ [0x66F4, 0x65B0])) (\<lambda>u. ret False)
      else
        let github_repo = env_or_default dr (lit ''GITHUB_REPOSITORY'') [] in
        if github_repo = [] then
          bind (log WARN (lit ''GITHUB_REPOSITORY '' @
                          [0x672A, 0x8BBE, 0x7F6E, 0xFF0C, 0x8DF3, 0x8FC7] @
                          lit '' Secret '' @ [0x66F4, 0x65B0])) (\<lambda>u. ret False)
        else
          try_step
            (perform (PutSecret repo_token github_repo secret_name secret_value)
               (drv_put_secret dr repo_token github_repo secret_name secret_value))
            (\<lambda>e. case e of
                    ImportError m \<Rightarrow>
                      bind (log WARN (lit ''PyNaCl '' @
                                      [0x672A, 0x5B89, 0x88C5, 0xFF0C, 0x8DF3, 0x8FC7] @
                                      lit '' Secret '' @ [0x66F4, 0x65B0])) (\<lambda>u. ret False)
                  | _ \<Rightarrow>
                      bind (log ERROR ([0x66F4, 0x65B0] @ lit '' GitHub Secret '' @
                                       [0x5931, 0x8D25] @ lit '': '' @ str_exn e)) (\<lambda>u. ret False))
            (\<lambda>u. bind (log INFO (lit ''GitHub Secret '' @ [0x5DF2, 0x66F4, 0x65B0])) (\<lambda>u.
                   ret True)))"

text \<open>
  Step 7 of \<open>main\<close>: read the session's cookies, serialise them, and update the secret
  unless the serialisation is empty.
\<close>

definition rotate_cookies :: "'w driver \<Rightarrow> ('w, ustr) io" where
  "rotate_cookies dr =
     bind (log INFO []) (\<lambda>u.
     bind (log INFO ([0x1F36A] @ lit '' '' @ [0x4FDD, 0x5B58, 0x5E76, 0x66F4, 0x65B0] @
                     lit '' Cookie...'')) (\<lambda>u.
     bind (perform Cookies (drv_cookies dr)) (\<lambda>new_cookies.
     bind (save_cookies_for_update dr new_cookies) (\<lambda>new_cookie_str.
     bind (if new_cookie_str \<noteq> []
           then bind (update_github_secret dr (lit ''PANEL_BYTTE_COOKIES'') new_cookie_str)
                  (\<lambda>b. ret ())
           else ret ()) (\<lambda>u.
     ret new_cookie_str)))))"

text \<open>
  The rotation policy in the specification's words: the recognised tokens, in the
  order primary session tokens, application session token, anti-forgery token,
  bot-mitigation tokens, all others, each class in the order of the input; each pair is
  \<open>name=value\<close> with the value percent-encoded, and the pairs are joined with \<open>"; "\<close>.
\<close>

definition recognized :: "cookie \<Rightarrow> bool" where
  "recognized c = (\<exists>p \<in> set important_names. startswith (cookie_name c) p)"

definition is_remember :: "cookie \<Rightarrow> bool" where
  "is_remember c = startswith (cookie_name c) (lit ''remember_web'')"

definition is_session :: "cookie \<Rightarrow> bool" where
  "is_session c = (cookie_name c = lit ''pterodactyl_session'')"

definition is_xsrf :: "cookie \<Rightarrow> bool" where
  "is_xsrf c = (cookie_name c = lit ''XSRF-TOKEN'')"

definition is_cf :: "cookie \<Rightarrow> bool" where
  "is_cf c = startswith (cookie_name c) (lit ''cf_'')"

definition priority_order :: "cookie list \<Rightarrow> cookie list" where
  "priority_order cs =
     filter is_remember cs @ filter is_session cs @ filter is_xsrf cs @ filter is_cf cs @
     filter (\<lambda>c. \<not> is_remember c \<and> \<not> is_session c \<and> \<not> is_xsrf c \<and> \<not> is_cf c) cs"

definition percent_encoded :: "ustr \<Rightarrow> ustr" where
  "percent_encoded v = (case quote v of Inl e \<Rightarrow> [] | Inr q \<Rightarrow> q)"

definition serialization :: "cookie list \<Rightarrow> ustr" where
  "serialization cookies =
     join (lit ''; '')
       (map (\<lambda>c. cookie_name c @ lit ''='' @ percent_encoded (cookie_value c))
          (priority_order (filter recognized cookies)))"

definition is_rotation_call :: "event \<Rightarrow> bool" where
  "is_rotation_call ev =
     (case ev of
        Call (WriteText p t) ok \<Rightarrow> True
      | Call (PutSecret tok repo n v) ok \<Rightarrow> True
      | _ \<Rightarrow> False)"

section \<open>Renewal: \<open>check_and_renew\<close>\<close>

record renew_result =
  need_renew :: bool
  renewed :: bool
  expiration :: ustr
  balance :: ustr
  price :: ustr
  message :: ustr

definition balance_selectors :: "ustr list" where
  "balance_selectors =
     [lit ''code.RenewServerBox___StyledCode-sc-pwczq4-3'',
      lit ''.RenewServerBox___StyledDiv2-sc-pwczq4-2 code'',
      lit ''code.TqUPO'']"

definition expiration_selectors :: "ustr list" where
  "expiration_selectors =
     [lit ''code.RenewServerBox___StyledCode2-sc-pwczq4-5'',
      lit ''.RenewServerBox___StyledDiv3-sc-pwczq4-4 code'',
      lit ''code.kggZVS'']"

definition renew_selectors :: "ustr list" where
  "renew_selectors =
     [lit ''button:has-text('' @ [0x22] @ lit ''Renew Server'' @ [0x22] @ lit '')'',
      lit ''.RenewServerBox___StyledDiv4-sc-pwczq4-8 button'',
      lit ''button.bvYLfo'']"

definition confirm_selectors :: "ustr list" where
  "confirm_selectors =
     [lit ''button:has-text('' @ [0x22] @ lit ''Yes, Renew Server'' @ [0x22] @ lit '')'',
      lit ''button:has-text('' @ [0x22] @ lit ''Yes, renew server'' @ [0x22] @ lit '')'',
      lit ''.ConfirmationModal___StyledButton2-sc-1sxt2cr-4'',
      lit ''button.iNKfxp'']"

definition balance_found :: ustr where
  "balance_found = [0x1F4B0] @ lit '' '' @ [0x8D26, 0x6237, 0x4F59, 0x989D] @ lit '': ''"

definition expiration_found :: ustr where
  "expiration_found = [0x1F4C5] @ lit '' '' @ [0x5230, 0x671F, 0x65F6, 0x95F4] @ lit '': ''"

definition renew_found :: ustr where
  "renew_found =
     [0x1F518] @ lit '' '' @ [0x627E, 0x5230, 0x7EED, 0x7EA6, 0x6309, 0x94AE] @ lit '': ''"

definition msg_no_renew_button :: ustr where
  "msg_no_renew_button = [0x672A, 0x627E, 0x5230, 0x7EED, 0x7EA6, 0x6309, 0x94AE]"

definition msg_renew_ok :: ustr where
  "msg_renew_ok = [0x514D, 0x8D39, 0x7EED, 0x7EA6, 0x6210, 0x529F]"

definition msg_no_confirm :: ustr where
  "msg_no_confirm = [0x672A, 0x627E, 0x5230, 0x786E, 0x8BA4, 0x6309, 0x94AE]"

definition msg_paid :: ustr where
  "msg_paid = [0x9700, 0x4ED8, 0x8D39, 0x7EED, 0x7EA6] @ lit '': ''"

definition msg_check_failed :: ustr where
  "msg_check_failed = [0x68C0, 0x67E5, 0x5931, 0x8D25] @ lit '': ''"

text \<open>
  The three selector loops of \<open>check_and_renew\<close> have one shape: the first selector
  that matches wins, the stripped text of its first element is read and logged after a
  fixed prefix, and the loop ends. The result is the selector and the text.
\<close>

fun first_match :: "'w driver \<Rightarrow> ustr \<Rightarrow> ustr list \<Rightarrow> ('w, (ustr \<times> ustr) option) io" where
  "first_match dr found [] = ret None"
| "first_match dr found (selector # rest) =
     bind (locator_count dr (Locator selector)) (\<lambda>n.
       if n > 0 then
         bind (inner_text dr (First selector)) (\<lambda>t.
         bind (log INFO (found @ strip t)) (\<lambda>u.
         ret (Some (selector, strip t))))
       else first_match dr found rest)"

text \<open>
  Step 4: the price is the stripped last piece of the label split at \<open>-\<close>, when the
  label has a \<open>-\<close>; otherwise \<open>result["price"]\<close> stays empty.
\<close>

definition price_part :: "ustr \<Rightarrow> ustr" where
  "price_part btn_text =
     (if contains (lit ''-'') btn_text then strip (last (split btn_text (lit ''-''))) else [])"

text \<open>
  \<open>re.search(r'(\d+\.?\d*)', s)\<close>: the leftmost decimal digit starts the match, which
  takes all digits that follow, then a full stop if there is one, then all digits that
  follow it. The result is the digits before and after the full stop, as their values.
  \<open>dec\<close> is the interpreter's table of decimal digits.
\<close>

definition first_number :: "(nat \<Rightarrow> nat option) \<Rightarrow> ustr \<Rightarrow> (nat list \<times> nat list) option" where
  "first_number dec s =
     (let t = dropWhile (\<lambda>c. dec c = None) s in
      if t = [] then None
      else
        let ip = takeWhile (\<lambda>c. dec c \<noteq> None) t;
            rest = dropWhile (\<lambda>c. dec c \<noteq> None) t
        in (case rest of
              [] \<Rightarrow> Some (map (the \<circ> dec) ip, [])
            | c # r \<Rightarrow>
                if c = 46 then Some (map (the \<circ> dec) ip,
                                     map (the \<circ> dec) (takeWhile (\<lambda>c. dec c \<noteq> None) r))
                else Some (map (the \<circ> dec) ip, [])))"

definition digits_value :: "nat list \<Rightarrow> nat" where
  "digits_value ds = foldl (\<lambda>a d. 10 * a + d) 0 ds"

text \<open>
  \<open>float(m) == 0\<close> for the matched numeral with integer digits \<open>ip\<close> and fraction
  digits \<open>fp\<close>: \<open>float\<close> rounds to the nearest double, ties to even, so the result is
  zero exactly when the numeral's value is at most \<open>2 ^ -1075\<close>, half the least
  positive double.
\<close>

definition float_is_zero :: "nat list \<Rightarrow> nat list \<Rightarrow> bool" where
  "float_is_zero ip fp =
     (digits_value ip = 0 \<and> digits_value fp * 2 ^ 1075 \<le> 10 ^ length fp)"

text \<open>Step 5, \<open>is_free\<close>. The \<open>try\<close> around the parse guards calls that do not raise.\<close>

definition is_free_label :: "(nat \<Rightarrow> nat option) \<Rightarrow> ustr \<Rightarrow> bool" where
  "is_free_label dec btn_text =
     (if contains (lit ''0.00'') btn_text then True
      else if price_part btn_text \<noteq> [] then
        (case first_number dec (price_part btn_text) of
           Some (ip, fp) \<Rightarrow> float_is_zero ip fp
         | None \<Rightarrow> False)
      else False)"

text \<open>
  The loop over \<open>confirm_selectors\<close>: an attempt that raises anywhere (the count, the
  visibility test, the click, the wait after it) is abandoned and the next selector is
  tried; the first attempt that completes ends the loop with \<open>confirm_clicked = True\<close>.
\<close>

definition confirm_attempt :: "'w driver \<Rightarrow> ustr \<Rightarrow> ('w, bool) io" where
  "confirm_attempt dr selector =
     bind (locator_count dr (Locator selector)) (\<lambda>n.
       if n > 0 then
         bind (is_visible dr (First selector)) (\<lambda>v.
           if v then
             bind (log INFO ([0x1F4DD] @ lit '' '' @
                     [0x627E, 0x5230, 0x786E, 0x8BA4, 0x6309, 0x94AE, 0xFF0C, 0x70B9, 0x51FB] @
                     lit '' '' @ [0x27] @ lit ''Yes, Renew Server'' @ [0x27] @ lit ''...'')) (\<lambda>u.
             bind (click dr (First selector)) (\<lambda>u.
             bind (wait_for_timeout dr 3000) (\<lambda>u.
             ret True)))
           else ret False)
       else ret False)"

fun confirm_loop :: "'w driver \<Rightarrow> ustr list \<Rightarrow> ('w, bool) io" where
  "confirm_loop dr [] = ret False"
| "confirm_loop dr (selector # rest) =
     try_step (confirm_attempt dr selector)
       (\<lambda>e. confirm_loop dr rest)
       (\<lambda>clicked. if clicked then ret True else confirm_loop dr rest)"

text \<open>The handler of the outer \<open>try\<close>, for the result as it stands when the exception is raised.\<close>

definition renew_failed :: "renew_result \<Rightarrow> exn \<Rightarrow> ('w, renew_result) io" where
  "renew_failed r e =
     bind (log ERROR ([0x7EED, 0x7EA6, 0x68C0, 0x67E5, 0x5931, 0x8D25] @ lit '': '' @ str_exn e)) (\<lambda>u.
     ret (r\<lparr>message := msg_check_failed @ take 50 (str_exn e)\<rparr>))"

definition renew_free :: "'w driver \<Rightarrow> renew_result \<Rightarrow> ustr \<Rightarrow> ('w, renew_result) io" where
  "renew_free dr r selector =
     bind (log INFO ([0x1F193] @ lit '' '' @ [0x53EF, 0x514D, 0x8D39, 0x7EED, 0x7EA6] @ lit ''!'')) (\<lambda>u.
     bind (log INFO ([0x1F504] @ lit '' '' @ [0x70B9, 0x51FB, 0x7EED, 0x7EA6, 0x6309, 0x94AE] @
                     lit ''...'')) (\<lambda>u.
     try_step (click dr (First selector)) (renew_failed r) (\<lambda>u.
     try_step (wait_for_timeout dr 2000) (renew_failed r) (\<lambda>u.
     bind (confirm_loop dr confirm_selectors) (\<lambda>confirm_clicked.
       if confirm_clicked then
         bind (log INFO ([0x2705] @ lit '' '' @ [0x7EED, 0x7EA6, 0x6210, 0x529F] @ lit ''!'')) (\<lambda>u.
         ret (r\<lparr>renewed := True, message := msg_renew_ok\<rparr>))
       else
         bind (log WARN ([0x26A0, 0xFE0F] @ lit '' '' @
                 [0x672A, 0x627E, 0x5230, 0x786E, 0x8BA4, 0x6309, 0x94AE, 0xFF0C, 0x7EED, 0x7EA6,
                  0x53EF, 0x80FD, 0x672A, 0x5B8C, 0x6210])) (\<lambda>u.
         ret (r\<lparr>message := msg_no_confirm\<rparr>)))))))"

text \<open>Steps 4 and 5 and the action, once the renewal control and its label are known.\<close>

definition renew_decide :: "'w driver \<Rightarrow> renew_result \<Rightarrow> ustr \<Rightarrow> ustr \<Rightarrow> ('w, renew_result) io" where
  "renew_decide dr r selector btn_text =
     (let r3 = (if contains (lit ''-'') btn_text then r\<lparr>price := price_part btn_text\<rparr> else r) in
      bind (if contains (lit ''-'') btn_text
            then log INFO ([0x1F4B5] @ lit '' '' @ [0x7EED, 0x7EA6, 0x4EF7, 0x683C] @ lit '': '' @
                           price_part btn_text)
            else ret ()) (\<lambda>u.
      if is_free_label (drv_decimal dr) btn_text then
        renew_free dr (r3\<lparr>need_renew := True\<rparr>) selector
      else
        bind (log INFO ([0x1F4B5] @ lit '' '' @ [0x7EED, 0x7EA6, 0x9700, 0x8981, 0x4ED8, 0x8D39] @
                        lit '': '' @ price r3 @ [0xFF0C, 0x8DF3, 0x8FC7])) (\<lambda>u.
        ret (r3\<lparr>message := msg_paid @ price r3\<rparr>))))"

definition empty_result :: renew_result where
  "empty_result = \<lparr>need_renew = False, renewed = False, expiration = [], balance = [],
                    price = [], message = []\<rparr>"

definition found_text :: "(ustr \<times> ustr) option \<Rightarrow> ustr" where
  "found_text m = (case m of None \<Rightarrow> [] | Some (selector, t) \<Rightarrow> t)"

definition renew_not_found :: "renew_result \<Rightarrow> ('w, renew_result) io" where
  "renew_not_found r =
     bind (log INFO ([0x2139, 0xFE0F] @ lit '' '' @ msg_no_renew_button)) (\<lambda>u.
     ret (r\<lparr>message := msg_no_renew_button\<rparr>))"

text \<open>What follows the third loop: \<open>if not renew_btn or not btn_text\<close>, else steps 4 and 5.\<close>

definition on_renew_button ::
  "'w driver \<Rightarrow> renew_result \<Rightarrow> (ustr \<times> ustr) option \<Rightarrow> ('w, renew_result) io" where
  "on_renew_button dr r btn =
     (case btn of
        None \<Rightarrow> renew_not_found r
      | Some (selector, btn_text) \<Rightarrow>
          if btn_text = [] then renew_not_found r
          else renew_decide dr r selector btn_text)"

definition check_and_renew :: "'w driver \<Rightarrow> ('w, renew_result) io" where
  "check_and_renew dr =
     try_step (wait_for_timeout dr 2000) (renew_failed empty_result) (\<lambda>u.
     try_step (first_match dr balance_found balance_selectors) (renew_failed empty_result) (\<lambda>b.
     try_step (first_match dr expiration_found expiration_selectors)
       (renew_failed (empty_result\<lparr>balance := found_text b\<rparr>)) (\<lambda>x.
     try_step (first_match dr renew_found renew_selectors)
       (renew_failed (empty_result\<lparr>balance := found_text b, expiration := found_text x\<rparr>))
       (on_renew_button dr
          (empty_result\<lparr>balance := found_text b, expiration := found_text x\<rparr>)))))"

definition do_restart :: "'w driver \<Rightarrow> ('w, bool) io" where
  "do_restart dr =
     catch
       (bind (locator_count dr (Locator power_start)) (\<lambda>n.
        bind (if n > 0 then
                bind (get_attribute dr (Locator power_start) disabled) (\<lambda>a. ret (a = None))
              else ret False) (\<lambda>start_ok.
        if start_ok then
          bind (log INFO ([0x25B6, 0xFE0F] @ lit '' '' @ [0x70B9, 0x51FB] @ lit '' Start '' @
                          [0x6309, 0x94AE] @ lit ''...'')) (\<lambda>u.
          bind (click dr (Locator power_start)) (\<lambda>u.
          bind (wait_for_timeout dr 3000) (\<lambda>u. ret True)))
        else
          bind (locator_count dr (Locator power_restart)) (\<lambda>m.
          bind (if m > 0 then
                  bind (get_attribute dr (Locator power_restart) disabled) (\<lambda>a. ret (a = None))
                else ret False) (\<lambda>restart_ok.
          if restart_ok then
            bind (log INFO ([0x1F504] @ lit '' '' @ [0x70B9, 0x51FB] @ lit '' Restart '' @
                            [0x6309, 0x94AE] @ lit ''...'')) (\<lambda>u.
            bind (click dr (Locator power_restart)) (\<lambda>u.
            bind (wait_for_timeout dr 3000) (\<lambda>u. ret True)))
          else
            bind (log WARN ([0x672A, 0x627E, 0x5230, 0x53EF, 0x7528, 0x7684, 0x542F, 0x52A8] @
                            lit ''/'' @ [0x91CD, 0x542F, 0x6309, 0x94AE])) (\<lambda>u.
            ret False))))))
       (\<lambda>e. bind (log ERROR ([0x91CD, 0x542F, 0x64CD, 0x4F5C, 0x5931, 0x8D25] @ lit '': '' @
                              str_exn e)) (\<lambda>u. ret False))"

text \<open>Observations on the events of a renewal.\<close>

definition is_click :: "event \<Rightarrow> bool" where
  "is_click ev = (case ev of Call (Click l) ok \<Rightarrow> True | _ \<Rightarrow> False)"

definition confirmation_clicked :: "event list \<Rightarrow> bool" where
  "confirmation_clicked es = (\<exists>s \<in> set confirm_selectors. Call (Click (First s)) True \<in> set es)"

definition confirmation_settled :: "event list \<Rightarrow> bool" where
  "confirmation_settled es = (Call (WaitForTimeout 3000) True \<in> set es)"

definition label_read :: "event list \<Rightarrow> ustr \<Rightarrow> bool" where
  "label_read es l = (Log INFO (renew_found @ l) \<in> set es)"

text \<open>What a selector loop guarantees: no click, no confirmation, and one logged line exactly when it found a text.\<close>

definition fm_post :: "ustr \<Rightarrow> (exn + (ustr \<times> ustr) option) \<Rightarrow> event list \<Rightarrow> bool" where
  "fm_post p r es =
     (\<not> list_ex is_click es \<and> \<not> confirmation_settled es \<and> \<not> confirmation_clicked es \<and>
      (\<forall>lv m. Log lv m \<in> set es \<longleftrightarrow> lv = INFO \<and> (\<exists>s t. r = Inr (Some (s, t)) \<and> m = p @ t)))"

text \<open>The outer handler of \<open>check_and_renew\<close> is the only place that logs at level \<open>ERROR\<close>.\<close>

definition handler_ran :: "event list \<Rightarrow> bool" where
  "handler_ran es = (\<exists>m. Log ERROR m \<in> set es)"

definition cl_post :: "ustr list \<Rightarrow> (exn + bool) \<Rightarrow> event list \<Rightarrow> bool" where
  "cl_post sels r es =
     ((\<exists>b. r = Inr b \<and> (b \<longleftrightarrow> confirmation_settled es)) \<and>
      (confirmation_settled es \<longrightarrow> (\<exists>s \<in> set sels. Call (Click (First s)) True \<in> set es)) \<and>
      (\<forall>l. \<not> label_read es l) \<and> \<not> handler_ran es)"

definition renew_post :: "(nat \<Rightarrow> nat option) \<Rightarrow> (exn + renew_result) \<Rightarrow> event list \<Rightarrow> bool" where
  "renew_post dec r es =
     (\<exists>rr. r = Inr rr \<and>
        (need_renew rr \<longleftrightarrow> (\<exists>l. label_read es l \<and> l \<noteq> [] \<and> is_free_label dec l)) \<and>
        (\<not> need_renew rr \<longrightarrow> \<not> list_ex is_click es) \<and>
        (renewed rr \<longleftrightarrow> confirmation_settled es) \<and>
        (confirmation_settled es \<longrightarrow> confirmation_clicked es) \<and>
        (renewed rr \<longrightarrow> message rr = msg_renew_ok) \<and>
        (need_renew rr \<and> \<not> renewed rr \<and> \<not> handler_ran es \<longrightarrow> message rr = msg_no_confirm) \<and>
        (handler_ran es \<longrightarrow> \<not> renewed rr \<and> (\<exists>e. message rr = msg_check_failed @ take 50 e)))"

definition quiet_events :: "event list \<Rightarrow> bool" where
  "quiet_events es =
     ((\<forall>l. \<not> label_read es l) \<and> \<not> list_ex is_click es \<and> \<not> confirmation_settled es \<and>
      \<not> confirmation_clicked es \<and> \<not> handler_ran es)"

text \<open>
  The eligibility policy in the specification's words: the label contains the token
  \<open>0.00\<close>, or the number parsed from the segment after the last \<open>-\<close> is zero.
\<close>

definition has_zero_token :: "ustr \<Rightarrow> bool" where
  "has_zero_token l = (\<exists>pre suf. l = pre @ lit ''0.00'' @ suf)"

definition trailing_segment :: "ustr \<Rightarrow> ustr \<Rightarrow> bool" where
  "trailing_segment l seg = (\<exists>pre. l = pre @ [45] @ seg \<and> 45 \<notin> set seg)"

definition price_is_zero :: "(nat \<Rightarrow> nat option) \<Rightarrow> ustr \<Rightarrow> bool" where
  "price_is_zero dec l =
     (\<exists>seg ip fp. trailing_segment l seg \<and> first_number dec (strip seg) = Some (ip, fp) \<and>
        float_is_zero ip fp)"

definition free_spec :: "(nat \<Rightarrow> nat option) \<Rightarrow> ustr \<Rightarrow> bool" where
  "free_spec dec l = (has_zero_token l \<or> price_is_zero dec l)"

section \<open>Notification: \<open>notify_telegram\<close>, \<open>send_text_only\<close>\<close>

definition http_post ::
  "'w driver \<Rightarrow> ustr \<Rightarrow> (ustr \<times> ustr) list \<Rightarrow> ustr option \<Rightarrow> ('w, nat \<times> ustr) io" where
  "http_post dr url form file =
     perform (HttpPost url form file) (drv_http_post dr url form file)"

definition telegram_api :: ustr where
  "telegram_api = lit ''https://api.telegram.org/bot''"

definition send_text_only :: "'w driver \<Rightarrow> ustr \<Rightarrow> ustr \<Rightarrow> ustr \<Rightarrow> ('w, unit) io" where
  "send_text_only dr bot_token chat_id text =
     catch
       (bind (http_post dr (telegram_api @ bot_token @ lit ''/sendMessage'')
                [(lit ''chat_id'', chat_id), (lit ''text'', text),
                 (lit ''disable_web_page_preview'', lit ''True'')] None) (\<lambda>resp.
          if fst resp = 200 then
            log INFO (lit ''Telegram '' @ [0x6587, 0x672C, 0x901A, 0x77E5, 0x5DF2, 0x53D1, 0x9001])
          else
            log WARN (lit ''Telegram '' @ [0x6D88, 0x606F, 0x53D1, 0x9001, 0x5931, 0x8D25] @
                      lit '': '' @ snd resp)))
       (\<lambda>e. log WARN ([0x53D1, 0x9001, 0x6587, 0x672C, 0x5931, 0x8D25] @ lit '': '' @ str_exn e))"

text \<open>The summary \<open>caption\<close>: the lines joined with newlines.\<close>

definition caption_of :: "bool \<Rightarrow> ustr \<Rightarrow> ustr \<Rightarrow> ustr \<Rightarrow> ustr" where
  "caption_of ok stage msg now =
     join [10]
       ([[0x1F4CB] @ lit '' Bytte '' @ [0x81EA, 0x52A8, 0x91CD, 0x542F] @ lit ''&'' @ [0x7EED, 0x7EA6],
         [],
         [0x72B6, 0x6001] @ lit '': '' @
           (if ok then [0x2705] @ lit '' '' @ [0x6210, 0x529F]
            else [0x274C] @ lit '' '' @ [0x5931, 0x8D25]),
         [0x9636, 0x6BB5] @ lit '': '' @ stage] @
        (if msg \<noteq> [] then [[], msg] else []) @
        [[], [0x23F0] @ lit '' '' @ now])"

definition notify_telegram ::
  "'w driver \<Rightarrow> bool \<Rightarrow> ustr \<Rightarrow> ustr \<Rightarrow> ustr option \<Rightarrow> ('w, unit) io" where
  "notify_telegram dr ok stage msg screenshot_file =
     (let bot_token = env_or_default dr (lit ''TG_BOT_TOKEN'') [];
          chat_id = env_or_default dr (lit ''TG_CHAT_ID'') []
      in
      if bot_token = [] \<or> chat_id = [] then
        log WARN (lit ''Telegram '' @
                  [0x914D, 0x7F6E, 0x4E0D, 0x5B8C, 0x6574, 0xFF0C, 0x8DF3, 0x8FC7, 0x901A, 0x77E5])
      else
        catch
          (bind (observe (drv_now dr)) (\<lambda>now.
           bind (observe (\<lambda>w. case screenshot_file of
                                 None \<Rightarrow> False
                               | Some f \<Rightarrow> f \<noteq> [] \<and> drv_exists dr f w)) (\<lambda>has_photo.
             if has_photo then
               bind (http_post dr (telegram_api @ bot_token @ lit ''/sendPhoto'')
                       [(lit ''chat_id'', chat_id),
                        (lit ''caption'', caption_of ok stage msg now)] screenshot_file) (\<lambda>resp.
                 if fst resp = 200 then
                   log INFO (lit ''Telegram '' @
                             [0x901A, 0x77E5, 0x5DF2, 0x53D1, 0x9001, 0xFF08, 0x5E26, 0x622A, 0x56FE,
                              0xFF09])
                 else
                   bind (log WARN (lit ''Telegram '' @
                                   [0x56FE, 0x7247, 0x53D1, 0x9001, 0x5931, 0x8D25] @ lit '': '' @
                                   snd resp)) (\<lambda>u.
                   send_text_only dr bot_token chat_id (caption_of ok stage msg now)))
             else send_text_only dr bot_token chat_id (caption_of ok stage msg now))))
          (\<lambda>e. log WARN (lit ''Telegram '' @ [0x901A, 0x77E5, 0x5931, 0x8D25] @ lit '': '' @
                          str_exn e)))"

text \<open>A text-only message was sent, or at least attempted.\<close>

definition is_text_send :: "event \<Rightarrow> bool" where
  "is_text_send ev =
     (case ev of
        Call (HttpPost url form None) ok \<Rightarrow> True
      | _ \<Rightarrow> False)"

section \<open>The cookie-injection script: \<open>main\<close>\<close>

definition separator :: "nat \<Rightarrow> ustr" where
  "separator n = replicate n 61"

text \<open>
  The response listener \<open>handle_response\<close>, as far as the claims need it: for every
  server entry of the captured inventory it appends the server record and logs the
  discovery line with the masked identifier, then logs that the data was captured.
  It runs while the base address loads, so its lines are logged before \<open>page.goto\<close>
  returns or raises.
\<close>

definition server_of :: "ustr \<times> ustr \<Rightarrow> server" where
  "server_of e =
     \<lparr>server_id = snd e, server_name = fst e,
      server_url = BASE_URL @ lit ''/server/'' @ snd e\<rparr>"

definition discovery_line :: "ustr \<times> ustr \<Rightarrow> ustr" where
  "discovery_line e =
     [0x1F4E6] @ lit '' '' @ [0x53D1, 0x73B0, 0x670D, 0x52A1, 0x5668] @ lit '': '' @ fst e @
     lit '' (ID: '' @ mask_id (snd e) @ lit '')''"

definition discover :: "'w driver \<Rightarrow> ('w, server list) io" where
  "discover dr =
     bind (observe (drv_inventory dr)) (\<lambda>inv.
       case inv of
         None \<Rightarrow> ret []
       | Some entries \<Rightarrow>
           bind (log_all INFO (map discovery_line entries)) (\<lambda>u.
           bind (log INFO ([0x2705] @ lit '' API '' @
                   [0x6570, 0x636E, 0x5DF2, 0x6355, 0x83B7, 0xFF0C, 0x79FB, 0x9664, 0x76D1, 0x542C,
                    0x5668])) (\<lambda>u.
           ret (map server_of entries))))"

text \<open>Step 2, the navigation to the base address, with the lines of the listener.\<close>

definition visit_panel :: "'w driver \<Rightarrow> ('w, server list) io" where
  "visit_panel dr =
     bind (discover dr) (\<lambda>servers.
     bind (page_goto dr BASE_URL) (\<lambda>u.
     ret servers))"

text \<open>The handlers of the \<open>try\<close> inside the loop over the servers.\<close>

definition server_failed :: "ustr \<Rightarrow> exn \<Rightarrow> ('w, ustr) io" where
  "server_failed name e =
     (case e of
        PlaywrightTimeout m \<Rightarrow>
          bind (log ERROR ([0x274C] @ lit '' '' @ name @ lit '' '' @
                           [0x64CD, 0x4F5C, 0x8D85, 0x65F6])) (\<lambda>u.
          ret ([0x274C] @ lit '' '' @ name @ lit '': '' @ [0x8D85, 0x65F6]))
      | _ \<Rightarrow>
          bind (log ERROR ([0x274C] @ lit '' '' @ name @ lit '' '' @
                           [0x64CD, 0x4F5C, 0x5931, 0x8D25] @ lit '': '' @ str_exn e)) (\<lambda>u.
          ret ([0x274C] @ lit '' '' @ name @ lit '': '' @ take 30 (str_exn e))))"

text \<open>
  The handler together with the value \<open>final_screenshot\<close> has when the exception is
  raised; the loop body yields that value and the line appended to \<open>results\<close>.
\<close>

definition fail_with :: "ustr option \<Rightarrow> ustr \<Rightarrow> exn \<Rightarrow> ('w, ustr option \<times> ustr) io" where
  "fail_with fs name e = bind (server_failed name e) (\<lambda>line. ret (fs, line))"

definition status_line :: "ustr \<Rightarrow> bool \<Rightarrow> bool \<Rightarrow> renew_result \<Rightarrow> ustr" where
  "status_line name need_restart restart_done rr =
     [0x1F5A5, 0xFE0F] @ lit '' '' @ name @ lit '': '' @
     join (lit '' | '')
       ((if need_restart then
           (if restart_done then [[0x1F504, 0x91CD, 0x542F, 0x6210, 0x529F]]
            else [[0x274C, 0x91CD, 0x542F, 0x5931, 0x8D25]])
         else [[0x1F7E2, 0x8FD0, 0x884C, 0x4E2D]]) @
        (if need_renew rr then
           (if renewed rr then [[0x2705, 0x7EED, 0x7EA6, 0x6210, 0x529F]]
            else [[0x274C, 0x7EED, 0x7EA6, 0x5931, 0x8D25]])
         else (if message rr \<noteq> [] then [[0x2139, 0xFE0F] @ take 20 (message rr)] else [])) @
        (if expiration rr \<noteq> [] then [[0x1F4C5] @ expiration rr] else []))"

text \<open>Step B of the loop body, after the restart step.\<close>

definition renew_step ::
  "'w driver \<Rightarrow> nat \<Rightarrow> server \<Rightarrow> ustr option \<Rightarrow> bool \<Rightarrow> bool \<Rightarrow> ('w, ustr option \<times> ustr) io" where
  "renew_step dr idx server fs need_restart restart_done =
     bind (log INFO []) (\<lambda>u.
     bind (log INFO ([0x1F4CD] @ lit '' '' @ [0x6B65, 0x9AA4] @ lit '' B: '' @
                     [0x68C0, 0x67E5, 0x7EED, 0x7EA6, 0x72B6, 0x6001] @ lit ''...'')) (\<lambda>u.
     try_step (page_goto dr (server_url server @ lit ''/settings''))
       (fail_with fs (server_name server)) (\<lambda>u.
     try_step (wait_for_timeout dr 3000) (fail_with fs (server_name server)) (\<lambda>u.
     try_step (page_screenshot dr (screenshot_path (lit ''06-settings-'' @ str_nat (idx + 1))))
       (fail_with fs (server_name server)) (\<lambda>u.
     let fs1 = Some (screenshot_path (lit ''06-settings-'' @ str_nat (idx + 1))) in
     try_step (check_and_renew dr) (fail_with fs1 (server_name server)) (\<lambda>rr.
       if renewed rr then
         try_step (page_screenshot dr (screenshot_path (lit ''07-after-renew-'' @ str_nat (idx + 1))))
           (fail_with fs1 (server_name server)) (\<lambda>u.
         ret (Some (screenshot_path (lit ''07-after-renew-'' @ str_nat (idx + 1))),
              status_line (server_name server) need_restart restart_done rr))
       else ret (fs1, status_line (server_name server) need_restart restart_done rr)))))))"

text \<open>
  One turn of the loop over the servers, up to the end of its \<open>try\<close> statement: the
  header lines, step A, step B. It yields the new \<open>final_screenshot\<close> and the line
  appended to \<open>results\<close>.
\<close>

definition process_server ::
  "'w driver \<Rightarrow> nat \<Rightarrow> nat \<Rightarrow> server \<Rightarrow> ustr option \<Rightarrow> ('w, ustr option \<times> ustr) io" where
  "process_server dr n idx server fs =
     bind (log INFO []) (\<lambda>u.
     bind (log INFO (separator 40)) (\<lambda>u.
     bind (log INFO (lit ''['' @ str_nat (idx + 1) @ lit ''/'' @ str_nat n @ lit ''] '' @
                     [0x1F5A5, 0xFE0F] @ lit '' '' @ [0x5904, 0x7406] @ lit '': '' @
                     server_name server @ lit '' ('' @ mask_id (server_id server) @ lit '')'')) (\<lambda>u.
     bind (log INFO (separator 40)) (\<lambda>u.
     bind (log INFO []) (\<lambda>u.
     bind (log INFO ([0x1F4CD] @ lit '' '' @ [0x6B65, 0x9AA4] @ lit '' A: '' @
                     [0x68C0, 0x67E5, 0x91CD, 0x542F, 0x72B6, 0x6001] @ lit ''...'')) (\<lambda>u.
     try_step (page_goto dr (server_url server)) (fail_with fs (server_name server)) (\<lambda>u.
     try_step (wait_for_timeout dr 3000) (fail_with fs (server_name server)) (\<lambda>u.
     try_step (page_screenshot dr (screenshot_path (lit ''04-console-'' @ str_nat (idx + 1))))
       (fail_with fs (server_name server)) (\<lambda>u.
     try_step (check_need_restart dr) (fail_with fs (server_name server)) (\<lambda>need_restart.
       if need_restart then
         try_step (do_restart dr) (fail_with fs (server_name server)) (\<lambda>restart_success.
         try_step
           (page_screenshot dr (screenshot_path (lit ''05-after-restart-'' @ str_nat (idx + 1))))
           (fail_with fs (server_name server)) (\<lambda>u.
         renew_step dr idx server
           (Some (screenshot_path (lit ''05-after-restart-'' @ str_nat (idx + 1))))
           True restart_success))
       else renew_step dr idx server fs False False))))))))))"

text \<open>
  The loop over the servers. The wait after each turn is outside the \<open>try\<close> of the
  turn: when it raises, the loop ends with the exception and the value
  \<open>final_screenshot\<close> has then (\<open>Inl\<close>); otherwise it ends with \<open>final_screenshot\<close>
  and \<open>results\<close> (\<open>Inr\<close>).
\<close>

fun server_loop ::
  "'w driver \<Rightarrow> nat \<Rightarrow> nat \<Rightarrow> server list \<Rightarrow> ustr option \<Rightarrow> ustr list \<Rightarrow>
   ('w, (exn \<times> ustr option) + (ustr option \<times> ustr list)) io" where
  "server_loop dr n idx [] fs results = ret (Inr (fs, results))"
| "server_loop dr n idx (server # rest) fs results =
     try_step (process_server dr n idx server fs) (\<lambda>e. ret (Inl (e, fs))) (\<lambda>out.
     try_step (wait_for_timeout dr 2000) (\<lambda>e. ret (Inl (e, fst out))) (\<lambda>u.
     server_loop dr n (Suc idx) rest (fst out) (results @ [snd out])))"

text \<open>
  The handler of the outer \<open>try\<close> of \<open>main\<close>, for the value \<open>final_screenshot\<close> has
  when the exception is raised; it ends in \<open>sys.exit(1)\<close>. The traceback is recorded
  as a line of its own.
\<close>

definition top_failed :: "'w driver \<Rightarrow> ustr option \<Rightarrow> exn \<Rightarrow> ('w, nat) io" where
  "top_failed dr fs e =
     bind (log ERROR ([0x1F4A5] @ lit '' '' @ [0x53D1, 0x751F, 0x5F02, 0x5E38] @ lit '': '' @
                      str_exn e)) (\<lambda>u.
     bind (log (lit ''TRACEBACK'') (str_exn e)) (\<lambda>u.
     bind (try_step (page_screenshot dr (screenshot_path (lit ''99-error'')))
             (\<lambda>e'. ret fs) (\<lambda>u. ret (Some (screenshot_path (lit ''99-error''))))) (\<lambda>fs'.
     bind (observe (\<lambda>w. case fs' of
                           None \<Rightarrow> None
                         | Some f \<Rightarrow> if f \<noteq> [] \<and> drv_exists dr f w then Some f else None)) (\<lambda>shot.
     bind (notify_telegram dr False [0x811A, 0x672C, 0x5F02, 0x5E38] (str_exn e) shot) (\<lambda>u.
     ret 1)))))"

definition msg_done :: ustr where
  "msg_done = [0x1F4CA] @ lit '' '' @ [0x6267, 0x884C, 0x5B8C, 0x6210]"

text \<open>Step 8, the final report; it ends in \<open>sys.exit(0)\<close>.\<close>

definition report :: "'w driver \<Rightarrow> ustr option \<Rightarrow> ustr list \<Rightarrow> ('w, nat) io" where
  "report dr fs results =
     bind (log INFO []) (\<lambda>u.
     bind (log INFO (separator 50)) (\<lambda>u.
     bind (log INFO msg_done) (\<lambda>u.
     bind (log INFO (separator 50)) (\<lambda>u.
     bind (notify_telegram dr True [0x5168, 0x90E8, 0x5B8C, 0x6210] (join [10] results) fs) (\<lambda>u.
     ret 0)))))"

definition dismiss_popup :: "'w driver \<Rightarrow> ('w, unit) io" where
  "dismiss_popup dr =
     catch
       (bind (is_visible dr (First (lit ''text=Dismiss''))) (\<lambda>v.
          if v then
            bind (click dr (First (lit ''text=Dismiss''))) (\<lambda>u.
            bind (log INFO [0x5173, 0x95ED, 0x516C, 0x544A, 0x5F39, 0x7A97]) (\<lambda>u.
            wait_for_timeout dr 1000))
          else ret ()))
       (\<lambda>e. ret ())"

text \<open>Steps 6 to 8: the servers, the rotation and the report.\<close>

definition run_servers :: "'w driver \<Rightarrow> server list \<Rightarrow> ustr option \<Rightarrow> ('w, nat) io" where
  "run_servers dr servers fs =
     bind (log INFO ([0x1F4CB] @ lit '' '' @ [0x5171, 0x627E, 0x5230] @ lit '' '' @
                     str_nat (length servers) @ lit '' '' @ [0x4E2A, 0x670D, 0x52A1, 0x5668])) (\<lambda>u.
     try_step (server_loop dr (length servers) 0 servers fs []) (top_failed dr fs) (\<lambda>out.
       case out of
         Inl (e, fs') \<Rightarrow> top_failed dr fs' e
       | Inr (fs', results) \<Rightarrow>
           try_step (rotate_cookies dr) (top_failed dr fs') (\<lambda>new_cookie_str.
           report dr fs' results)))"

text \<open>Steps 3 (second half) to 8: what follows a landing page that is not the login page.\<close>

definition logged_in :: "'w driver \<Rightarrow> server list \<Rightarrow> ('w, nat) io" where
  "logged_in dr servers =
     bind (log INFO ([0x2705] @ lit '' Cookie '' @
                     [0x6709, 0x6548, 0xFF0C, 0x5DF2, 0x767B, 0x5F55])) (\<lambda>u.
     try_step (perform RemoveListener (drv_remove_listener dr)) (top_failed dr None) (\<lambda>u.
     bind (dismiss_popup dr) (\<lambda>u.
     try_step (page_screenshot dr (screenshot_path (lit ''02-dashboard'')))
       (top_failed dr None) (\<lambda>u.
     if servers = [] then
       try_step (page_screenshot dr (screenshot_path (lit ''03-no-servers'')))
         (top_failed dr (Some (screenshot_path (lit ''02-dashboard'')))) (\<lambda>u.
       bind (log ERROR ([0x274C] @ lit '' '' @
                        [0x672A, 0x627E, 0x5230, 0x4EFB, 0x4F55, 0x670D, 0x52A1, 0x5668])) (\<lambda>u.
       bind (notify_telegram dr False [0x83B7, 0x53D6, 0x670D, 0x52A1, 0x5668]
               [0x672A, 0x627E, 0x5230, 0x4EFB, 0x4F55, 0x670D, 0x52A1, 0x5668]
               (Some (screenshot_path (lit ''03-no-servers'')))) (\<lambda>u.
       ret 1)))
     else run_servers dr servers (Some (screenshot_path (lit ''02-dashboard'')))))))"

text \<open>
  The body of the outer \<open>try\<close>. Its value is the argument of the \<open>sys.exit\<close> it ends
  in: \<open>SystemExit\<close> is not an \<open>Exception\<close>, so the handler lets it pass.
\<close>

definition main_try :: "'w driver \<Rightarrow> ustr \<Rightarrow> ('w, nat) io" where
  "main_try dr preset_cookies =
     bind (log INFO ([0x1F36A] @ lit '' '' @ [0x6CE8, 0x5165] @ lit '' Cookie...'')) (\<lambda>u.
     bind (parse_cookie_string preset_cookies (lit ''panel.bytte.cloud'')) (\<lambda>cookies.
     if cookies = [] then
       bind (log ERROR ([0x274C] @ lit '' Cookie '' @ [0x89E3, 0x6790, 0x5931, 0x8D25])) (\<lambda>u.
       bind (notify_telegram dr False (lit ''Cookie '' @ [0x89E3, 0x6790])
               ([0x65E0, 0x6CD5, 0x89E3, 0x6790] @ lit '' Cookie'') None) (\<lambda>u.
       ret 1))
     else
       try_step (perform (AddCookies cookies) (drv_add_cookies dr cookies))
         (top_failed dr None) (\<lambda>u.
       bind (log INFO ([0x2705] @ lit '' '' @ [0x5DF2, 0x6CE8, 0x5165] @ lit '' '' @
                       str_nat (length cookies) @ lit '' '' @ [0x4E2A] @ lit '' Cookie'')) (\<lambda>u.
       bind (log INFO ([0x1F517] @ lit '' '' @ [0x8BBF, 0x95EE] @ lit '' '' @ BASE_URL @
                       lit ''...'')) (\<lambda>u.
       try_step (visit_panel dr) (top_failed dr None) (\<lambda>servers.
       try_step (wait_for_timeout dr 5000) (top_failed dr None) (\<lambda>u.
       bind (observe (drv_url dr)) (\<lambda>current_url.
       try_step (perform Title (drv_title dr)) (top_failed dr None) (\<lambda>title.
       bind (log INFO ([0x5F53, 0x524D] @ lit '' URL: '' @ current_url)) (\<lambda>u.
       bind (log INFO ([0x9875, 0x9762, 0x6807, 0x9898] @ lit '': '' @ title)) (\<lambda>u.
       if contains (lit ''/auth/login'') current_url then
         try_step (page_screenshot dr (screenshot_path (lit ''01-need-login'')))
           (top_failed dr None) (\<lambda>u.
         bind (log ERROR ([0x274C] @ lit '' Cookie '' @
                          [0x5DF2, 0x5931, 0x6548, 0xFF0C, 0x9700, 0x8981, 0x91CD, 0x65B0, 0x767B,
                           0x5F55])) (\<lambda>u.
         bind (notify_telegram dr False [0x767B, 0x5F55, 0x68C0, 0x67E5]
                 (lit ''Cookie '' @ [0x5DF2, 0x5931, 0x6548, 0xFF0C, 0x8BF7, 0x66F4, 0x65B0] @
                  lit '' Cookie'')
                 (Some (screenshot_path (lit ''01-need-login'')))) (\<lambda>u.
         ret 1)))
       else logged_in dr servers)))))))))))"

text \<open>
  \<open>main\<close>. The value is the argument of \<open>sys.exit\<close>; an exception that leaves \<open>main\<close>
  is \<open>Inl\<close>. The \<open>finally\<close> block closes the context and the browser.
\<close>

definition teardown :: "'w driver \<Rightarrow> ('w, unit) io" where
  "teardown dr =
     bind (perform ContextClose (drv_context_close dr)) (\<lambda>u.
     bind (perform BrowserClose (drv_browser_close dr)) (\<lambda>u.
     log INFO ([0x1F512] @ lit '' '' @ [0x6D4F, 0x89C8, 0x5668, 0x5DF2, 0x5173, 0x95ED])))"

definition main :: "'w driver \<Rightarrow> ('w, nat) io" where
  "main dr =
     bind (log INFO (separator 50)) (\<lambda>u.
     bind (log INFO ([0x1F680] @ lit '' Panel Bytte '' @ [0x81EA, 0x52A8, 0x91CD, 0x542F] @
                     lit ''&'' @ [0x7EED, 0x7EA6, 0x811A, 0x672C, 0x542F, 0x52A8])) (\<lambda>u.
     bind (log INFO (separator 50)) (\<lambda>u.
     bind (ensure_output_dir dr) (\<lambda>u.
       case env_or_throw dr (lit ''PANEL_BYTTE_COOKIES'') of
         Inl m \<Rightarrow>
           bind (log ERROR m) (\<lambda>u.
           bind (notify_telegram dr False [0x521D, 0x59CB, 0x5316, 0x5931, 0x8D25]
                   (lit ''Cookie '' @ [0x73AF, 0x5883, 0x53D8, 0x91CF, 0x672A, 0x8BBE, 0x7F6E])
                   None) (\<lambda>u.
           ret 1))
       | Inr preset_cookies \<Rightarrow>
           bind (log INFO ([0x1F36A] @ lit '' Cookie '' @ [0x957F, 0x5EA6] @ lit '': '' @
                           str_nat (length preset_cookies) @ lit '' '' @ [0x5B57, 0x7B26])) (\<lambda>u.
           bind (log INFO ([0x1F310] @ lit '' '' @ [0x542F, 0x52A8, 0x6D4F, 0x89C8, 0x5668] @
                           lit ''...'')) (\<lambda>u.
           bind (perform Launch (drv_launch dr)) (\<lambda>u.
           try_finally (main_try dr preset_cookies) (teardown dr))))))))"

text \<open>The exit status of the process: 1 for an exception that nothing caught.\<close>

definition exit_status :: "exn + nat \<Rightarrow> nat" where
  "exit_status r = (case r of Inl e \<Rightarrow> 1 | Inr code \<Rightarrow> code)"

section \<open>The interactive-login script\<close>

definition LOGIN_URL :: ustr where
  "LOGIN_URL = lit ''https://www.data-online.co.uk/login''"

definition TERMINAL_URL :: ustr where
  "TERMINAL_URL = lit ''https://www.data-online.co.uk/console''"

definition MAX_RETRIES :: nat where
  "MAX_RETRIES = 3"

definition mask_string :: "ustr \<Rightarrow> nat \<Rightarrow> ustr" where
  "mask_string s show =
     (if length s \<le> show then replicate (length s) 42
      else take show s @ replicate (length s - show) 42)"

text \<open>\<open>log(msg)\<close> of this script prints \<open>[INFO] msg\<close>.\<close>

definition log_info :: "ustr \<Rightarrow> ('w, unit) io" where
  "log_info msg = log INFO msg"

text \<open>\<open>os.getenv(name, default)\<close>\<close>

definition getenv :: "'w driver \<Rightarrow> ustr \<Rightarrow> ustr \<Rightarrow> ustr" where
  "getenv dr n d = (case drv_environ dr n of None \<Rightarrow> d | Some v \<Rightarrow> v)"

record account =
  username :: ustr
  password :: ustr
  command :: ustr

text \<open>One turn of the loop of \<open>parse_accounts\<close>: the account a line adds, if any.\<close>

definition parse_account_line :: "ustr \<Rightarrow> account option" where
  "parse_account_line raw_line =
     (let line = strip raw_line in
      if line = [] then None
      else
        (let parts = split line (lit ''----'') in
         if 3 \<le> length parts then
           Some \<lparr>username = strip (parts ! 0), password = strip (parts ! 1),
                 command = strip (parts ! 2)\<rparr>
         else None))"

definition parse_accounts :: "'w driver \<Rightarrow> account list" where
  "parse_accounts dr =
     List.map_filter parse_account_line
       (split (strip (getenv dr (lit ''DATA_ACCOUNT'') [])) [10])"

definition send_telegram :: "'w driver \<Rightarrow> ustr \<Rightarrow> ('w, unit) io" where
  "send_telegram dr text =
     (let token = getenv dr (lit ''TG_BOT_TOKEN'') [];
          chat_id = getenv dr (lit ''TG_CHAT_ID'') []
      in
      if token = [] \<or> chat_id = [] then ret ()
      else
        catch
          (bind (http_post dr (telegram_api @ token @ lit ''/sendMessage'')
                   [(lit ''chat_id'', chat_id), (lit ''text'', text),
                    (lit ''parse_mode'', lit ''HTML'')] None) (\<lambda>resp.
           log_info [0x901A, 0x77E5, 0x53D1, 0x9001, 0x6210, 0x529F]))
          (\<lambda>e. log_info (([0x901A, 0x77E5, 0x53D1, 0x9001, 0x5931, 0x8D25] @ lit '': '') @ str_exn e)))"

definition ensure_dir :: "'w driver \<Rightarrow> ustr \<Rightarrow> ('w, unit) io" where
  "ensure_dir dr path = perform (Mkdir path) (drv_mkdir dr path)"

text \<open>\<open>asyncio.sleep(seconds)\<close>\<close>

definition sleep :: "'w driver \<Rightarrow> nat \<Rightarrow> ('w, unit) io" where
  "sleep dr seconds = perform (Sleep seconds) (\<lambda>w. (Inr (), drv_sleep dr seconds w))"

definition wait_for_load_state :: "'w driver \<Rightarrow> ustr \<Rightarrow> ('w, unit) io" where
  "wait_for_load_state dr s = perform (WaitForLoadState s) (drv_wait_for_load_state dr s)"

definition wait_for_selector :: "'w driver \<Rightarrow> ustr \<Rightarrow> ('w, unit) io" where
  "wait_for_selector dr s = perform (WaitForSelector s) (drv_wait_for_selector dr s)"

definition fill :: "'w driver \<Rightarrow> locator \<Rightarrow> ustr \<Rightarrow> ('w, unit) io" where
  "fill dr l v = perform (Fill l v) (drv_fill dr l v)"

definition press :: "'w driver \<Rightarrow> locator \<Rightarrow> ustr \<Rightarrow> ('w, unit) io" where
  "press dr l k = perform (Press l k) (drv_press dr l k)"

definition text_content :: "'w driver \<Rightarrow> locator \<Rightarrow> ('w, ustr option) io" where
  "text_content dr l = perform (TextContent l) (drv_text_content dr l)"

definition keyboard_type :: "'w driver \<Rightarrow> ustr \<Rightarrow> ('w, unit) io" where
  "keyboard_type dr t = perform (KeyboardType t) (drv_keyboard_type dr t)"

definition keyboard_press :: "'w driver \<Rightarrow> ustr \<Rightarrow> ('w, unit) io" where
  "keyboard_press dr k = perform (KeyboardPress k) (drv_keyboard_press dr k)"

text \<open>
  The loop \<open>for attempt in range(1, MAX_RETRIES + 1)\<close> that opens the login page, over
  the attempts still to make.
\<close>

fun connect :: "'w driver \<Rightarrow> nat list \<Rightarrow> ('w, unit) io" where
  "connect dr [] = ret ()"
| "connect dr (attempt # rest) =
     bind (log_info (([0x8FDE, 0x63A5, 0x5C1D, 0x8BD5] @ lit '' '') @ str_nat attempt @ lit ''/'' @ str_nat MAX_RETRIES)) (\<lambda>u.
     try_step (page_goto dr LOGIN_URL)
       (\<lambda>e. if attempt = MAX_RETRIES then
               raise (Exception (([0x65E0, 0x6CD5, 0x8BBF, 0x95EE, 0x767B, 0x5F55, 0x9875] @ lit '': '') @ str_exn e))
             else bind (sleep dr 3) (\<lambda>u. connect dr rest))
       (\<lambda>u. log_info ([0x2705] @ lit '' '' @ [0x8FDE, 0x63A5, 0x6210, 0x529F])))"

text \<open>
  The loops \<open>for selector in selectors: elem = page.locator(selector).first;
  if await elem.count() > 0: ...; break\<close>: the action runs on the first selector that
  matches; the value tells whether one did.
\<close>

fun for_first ::
  "'w driver \<Rightarrow> ustr list \<Rightarrow> (locator \<Rightarrow> ('w, unit) io) \<Rightarrow> ('w, bool) io" where
  "for_first dr [] act = ret False"
| "for_first dr (selector # rest) act =
     bind (locator_count dr (First selector)) (\<lambda>n.
       if 0 < n then bind (act (First selector)) (\<lambda>u. ret True)
       else for_first dr rest act)"

definition username_selectors :: "ustr list" where
  "username_selectors =
     [(lit ''input[name='' @ [0x22] @ lit ''username'' @ [0x22] @ lit '']''), (lit ''input[name='' @ [0x22] @ lit ''user_name'' @ [0x22] @ lit '']''), (lit ''input[type='' @ [0x22] @ lit ''text'' @ [0x22] @ lit '']'')]"

definition password_selectors :: "ustr list" where
  "password_selectors = [(lit ''input[name='' @ [0x22] @ lit ''password'' @ [0x22] @ lit '']''), (lit ''input[type='' @ [0x22] @ lit ''password'' @ [0x22] @ lit '']'')]"

definition submit_selectors :: "ustr list" where
  "submit_selectors =
     [(lit ''button[type='' @ [0x22] @ lit ''submit'' @ [0x22] @ lit '']''), (lit ''input[type='' @ [0x22] @ lit ''submit'' @ [0x22] @ lit '']''),
      (lit ''button:has-text('' @ [0x22] @ lit ''Login'' @ [0x22] @ lit '')''), (lit ''button:has-text('' @ [0x22, 0x767B, 0x5F55, 0x22] @ lit '')'')]"

definition terminal_selectors :: "ustr list" where
  "terminal_selectors =
     [lit ''textarea'', (lit ''input[type='' @ [0x22] @ lit ''text'' @ [0x22] @ lit '']''), lit ''.terminal-input'', lit ''#command'']"

definition logout_selectors :: "ustr list" where
  "logout_selectors =
     [(lit ''a:has-text('' @ [0x22] @ lit ''Logout'' @ [0x22] @ lit '')''), (lit ''a:has-text('' @ [0x22, 0x9000, 0x51FA, 0x22] @ lit '')''), (lit ''button:has-text('' @ [0x22] @ lit ''Logout'' @ [0x22] @ lit '')'')]"

text \<open>
  The \<open>try\<close> block of \<open>execute_account\<close> up to the terminal screenshot, in three
  parts: opening the login page, signing in, and sending the command.
\<close>

definition open_login_page :: "'w driver \<Rightarrow> nat \<Rightarrow> ustr \<Rightarrow> ('w, unit) io" where
  "open_login_page dr index masked_user =
     bind (log_info (replicate 50 61)) (\<lambda>u.
     bind (log_info (([0x8D26, 0x53F7] @ lit '' '') @ str_nat index @ (lit '': '' @ [0x767B, 0x5F55] @ lit '' '') @ masked_user)) (\<lambda>u.
     bind (log_info (replicate 50 61)) (\<lambda>u.
     bind (log_info ([0x6253, 0x5F00, 0x767B, 0x5F55, 0x9875] @ lit ''...'')) (\<lambda>u.
     connect dr [1..<MAX_RETRIES + 1]))))"

definition sign_in :: "'w driver \<Rightarrow> account \<Rightarrow> ('w, unit) io" where
  "sign_in dr account =
     bind (log_info ([0x7B49, 0x5F85, 0x9875, 0x9762, 0x52A0, 0x8F7D] @ lit ''...'')) (\<lambda>u.
     bind (wait_for_load_state dr (lit ''networkidle'')) (\<lambda>u.
     bind (log_info ([0x67E5, 0x627E, 0x767B, 0x5F55, 0x8868, 0x5355] @ lit ''...'')) (\<lambda>u.
     bind (wait_for_selector dr
             (lit ''input[name='' @ [0x22] @ lit ''username'' @ [0x22] @ lit ''], input[name='' @ [0x22] @ lit ''user_name'' @ [0x22] @ lit ''], input[type='' @ [0x22] @ lit ''text'' @ [0x22] @ lit '']'')) (\<lambda>u.
     bind (log_info ([0x2705] @ lit '' '' @ [0x767B, 0x5F55, 0x8868, 0x5355, 0x5DF2, 0x627E, 0x5230])) (\<lambda>u.
     bind (log_info ([0x586B, 0x5199, 0x767B, 0x5F55, 0x4FE1, 0x606F] @ lit ''...'')) (\<lambda>u.
     bind (for_first dr username_selectors (\<lambda>elem.
             bind (fill dr elem (username account)) (\<lambda>u. log_info ([0x2705] @ lit '' '' @ [0x7528, 0x6237, 0x540D, 0x5DF2, 0x586B, 0x5199])))) (\<lambda>b.
     bind (for_first dr password_selectors (\<lambda>elem.
             bind (fill dr elem (password account)) (\<lambda>u. log_info ([0x2705] @ lit '' '' @ [0x5BC6, 0x7801, 0x5DF2, 0x586B, 0x5199])))) (\<lambda>b.
     bind (for_first dr submit_selectors (\<lambda>elem.
             bind (click dr elem) (\<lambda>u. log_info ([0x2705] @ lit '' '' @ [0x70B9, 0x51FB, 0x767B, 0x5F55, 0x6309, 0x94AE])))) (\<lambda>b.
     bind (log_info ([0x7B49, 0x5F85, 0x767B, 0x5F55, 0x54CD, 0x5E94] @ lit ''...'')) (\<lambda>u.
     bind (wait_for_load_state dr (lit ''networkidle'')) (\<lambda>u.
     bind (observe (drv_url dr)) (\<lambda>current_url.
     bind (if contains (lit ''login'') (drv_lower dr current_url) then
             bind (locator_count dr (First (lit ''.error, .alert-danger, .message-error''))) (\<lambda>n.
               if 0 < n then
                 bind (text_content dr
                         (First (lit ''.error, .alert-danger, .message-error''))) (\<lambda>error_text.
                   raise (Exception (([0x767B, 0x5F55, 0x5931, 0x8D25] @ lit '': '') @
                            (case error_text of None \<Rightarrow> lit ''None'' | Some t \<Rightarrow> t))))
               else raise (Exception ([0x767B, 0x5F55, 0x5931, 0x8D25] @ lit '': '' @ [0x4ECD, 0x5728, 0x767B, 0x5F55, 0x9875, 0x9762])))
           else ret ()) (\<lambda>u.
     log_info ([0x2705] @ lit '' '' @ [0x767B, 0x5F55, 0x6210, 0x529F]))))))))))))))"

definition send_command ::
  "'w driver \<Rightarrow> account \<Rightarrow> nat \<Rightarrow> ustr \<Rightarrow> ('w, unit) io" where
  "send_command dr account index screenshot_dir =
     bind (log_info []) (\<lambda>u.
     bind (log_info ([0x8BBF, 0x95EE, 0x7EC8, 0x7AEF, 0x9875, 0x9762] @ lit ''...'')) (\<lambda>u.
     bind (page_goto dr TERMINAL_URL) (\<lambda>u.
     bind (wait_for_load_state dr (lit ''networkidle'')) (\<lambda>u.
     bind (log_info ([0x2705] @ lit '' '' @ [0x8FDB, 0x5165, 0x7EC8, 0x7AEF, 0x9875, 0x9762])) (\<lambda>u.
     bind (log_info ([0x6267, 0x884C, 0x547D, 0x4EE4] @ lit ''...'')) (\<lambda>u.
     bind (for_first dr terminal_selectors (\<lambda>elem.
             bind (fill dr elem (command account)) (\<lambda>u.
             bind (press dr elem (lit ''Enter'')) (\<lambda>u.
             log_info ([0x2705] @ lit '' '' @ [0x547D, 0x4EE4, 0x5DF2, 0x53D1, 0x9001]))))) (\<lambda>command_sent.
     bind (if \<not> command_sent then
             bind (keyboard_type dr (command account)) (\<lambda>u.
             bind (keyboard_press dr (lit ''Enter'')) (\<lambda>u.
             log_info ([0x2705] @ lit '' '' @ [0x547D, 0x4EE4, 0x5DF2, 0x53D1, 0x9001] @ lit '' ('' @ [0x952E, 0x76D8, 0x8F93, 0x5165] @ lit '')'')))
           else ret ()) (\<lambda>u.
     bind (sleep dr 3) (\<lambda>u.
     page_screenshot dr
       (screenshot_dir @ lit ''/account_'' @ str_nat index @ lit ''_terminal.png''))))))))))"

definition run_command ::
  "'w driver \<Rightarrow> account \<Rightarrow> nat \<Rightarrow> ustr \<Rightarrow> ustr \<Rightarrow> ('w, unit) io" where
  "run_command dr account index screenshot_dir masked_user =
     bind (open_login_page dr index masked_user) (\<lambda>u.
     bind (sign_in dr account) (\<lambda>u.
     send_command dr account index screenshot_dir))"

record run_result =
  res_account :: ustr
  res_success :: bool
  res_message :: ustr

text \<open>
  The \<open>except\<close> clause of \<open>execute_account\<close>, for the value \<open>result["success"]\<close> has
  when the exception is raised.
\<close>

definition account_failed ::
  "'w driver \<Rightarrow> nat \<Rightarrow> ustr \<Rightarrow> ustr \<Rightarrow> bool \<Rightarrow> exn \<Rightarrow> ('w, run_result) io" where
  "account_failed dr index screenshot_dir masked_user success e =
     (let error_msg = drv_scrub dr (str_exn e) in
      bind (log_info (([0x274C] @ lit '' '' @ [0x6267, 0x884C, 0x5931, 0x8D25] @ lit '': '') @ error_msg)) (\<lambda>u.
      bind (page_screenshot dr
              (screenshot_dir @ lit ''/account_'' @ str_nat index @ lit ''_error.png'')) (\<lambda>u.
      bind (send_telegram dr
              (([0x274C] @ lit '' <b>Data Online</b>'' @ [0xA, 0x8D26, 0x53F7] @ lit '': '') @ masked_user @ ([0xA, 0x72B6, 0x6001] @ lit '': '' @ [0x6267, 0x884C, 0x5931, 0x8D25, 0xA, 0x9519, 0x8BEF] @ lit '': '') @
               error_msg)) (\<lambda>u.
      ret \<lparr>res_account = masked_user, res_success = success, res_message = error_msg\<rparr>))))"

text \<open>The \<open>finally\<close> clause of \<open>execute_account\<close>.\<close>

definition logout :: "'w driver \<Rightarrow> ('w, unit) io" where
  "logout dr =
     catch
       (bind (for_first dr logout_selectors (\<lambda>elem.
                bind (click dr elem) (\<lambda>u. log_info [0x5DF2, 0x9000, 0x51FA, 0x767B, 0x5F55]))) (\<lambda>b. ret ()))
       (\<lambda>e. ret ())"

definition execute_account ::
  "'w driver \<Rightarrow> account \<Rightarrow> nat \<Rightarrow> ustr \<Rightarrow> ('w, run_result) io" where
  "execute_account dr account index screenshot_dir =
     (let masked_user = mask_string (username account) 2 in
      try_finally
        (try_step (run_command dr account index screenshot_dir masked_user)
           (account_failed dr index screenshot_dir masked_user False) (\<lambda>u.
         try_step (send_telegram dr
                     (([0x2705] @ lit '' <b>Data Online</b>'' @ [0xA, 0x8D26, 0x53F7] @ lit '': '') @ masked_user @ ([0xA, 0x72B6, 0x6001] @ lit '': '' @ [0x547D, 0x4EE4, 0x6267, 0x884C, 0x6210, 0x529F])))
           (account_failed dr index screenshot_dir masked_user True) (\<lambda>u.
         ret \<lparr>res_account = masked_user, res_success = True,
              res_message = [0x547D, 0x4EE4, 0x6267, 0x884C, 0x6210, 0x529F]\<rparr>)))
        (logout dr))"

text \<open>The loop over the accounts of \<open>main\<close>, numbered from \<open>index\<close>.\<close>

fun account_loop ::
  "'w driver \<Rightarrow> nat \<Rightarrow> account list \<Rightarrow> ustr \<Rightarrow> run_result list \<Rightarrow> ('w, run_result list) io" where
  "account_loop dr index [] screenshot_dir results = ret results"
| "account_loop dr index (account # rest) screenshot_dir results =
     bind (execute_account dr account index screenshot_dir) (\<lambda>r.
     bind (log_info []) (\<lambda>u.
     account_loop dr (Suc index) rest screenshot_dir (results @ [r])))"

definition summary_line :: "run_result \<Rightarrow> ustr" where
  "summary_line r =
     (if res_success r then [0x2705] else [0x274C]) @ lit '' '' @ res_account r @ lit '': '' @
     res_message r"

definition summary_title :: "run_result list \<Rightarrow> ustr" where
  "summary_title results =
     ([0x1F4CA] @ lit '' '' @ [0x6267, 0x884C, 0x6C47, 0x603B] @ lit '': '') @ str_nat (length (filter res_success results)) @ lit ''/'' @
     str_nat (length results) @ (lit '' '' @ [0x6210, 0x529F])"

definition summary :: "run_result list \<Rightarrow> ('w, unit) io" where
  "summary results =
     bind (log_info (replicate 50 61)) (\<lambda>u.
     bind (log_info (summary_title results)) (\<lambda>u.
     bind (log_info (replicate 50 45)) (\<lambda>u.
     bind (log_all INFO (map summary_line results)) (\<lambda>u.
     log_info (replicate 50 61)))))"

definition msg_no_accounts :: ustr where
  "msg_no_accounts = ([0x274C] @ lit '' '' @ [0x672A, 0x914D, 0x7F6E, 0x8D26, 0x53F7])"

text \<open>\<open>main\<close> of the interactive-login script.\<close>

definition login_main :: "'w driver \<Rightarrow> ('w, unit) io" where
  "login_main dr =
     (let accounts = parse_accounts dr in
      if accounts = [] then log_info msg_no_accounts
      else
        bind (log_info (([0x5171] @ lit '' '') @ str_nat (length accounts) @ (lit '' '' @ [0x4E2A, 0x8D26, 0x53F7]))) (\<lambda>u.
        bind (ensure_dir dr (lit ''output/screenshots'')) (\<lambda>u.
        bind (log_info ([0x542F, 0x52A8, 0x6D4F, 0x89C8, 0x5668] @ lit ''...'')) (\<lambda>u.
        bind (perform Launch (drv_launch dr)) (\<lambda>u.
        bind (account_loop dr 1 accounts (lit ''output/screenshots'') []) (\<lambda>results.
        bind (perform BrowserClose (drv_browser_close dr)) (\<lambda>u.
        summary results)))))))"

text \<open>
  The exit status of \<open>asyncio.run(main())\<close>: 0 when \<open>main\<close> returns, 1 when an
  exception leaves it.
\<close>

definition login_exit_status :: "exn + unit \<Rightarrow> nat" where
  "login_exit_status r = (case r of Inl e \<Rightarrow> 1 | Inr u \<Rightarrow> 0)"

text \<open>
  The first navigation of the cookie-injection script and the line that opens its
  report; \<open>plain\<close> events are all the others.
\<close>

definition is_initial_navigation :: "event \<Rightarrow> bool" where
  "is_initial_navigation ev =
     (ev = Call (Goto BASE_URL) True \<or> ev = Call (Goto BASE_URL) False)"

definition report_reached :: "event list \<Rightarrow> bool" where
  "report_reached es = (Log INFO msg_done \<in> set es)"

definition is_close :: "event \<Rightarrow> bool" where
  "is_close ev = (\<exists>ok. ev = Call ContextClose ok \<or> ev = Call BrowserClose ok)"

definition plain :: "event \<Rightarrow> bool" where
  "plain ev = (ev \<noteq> Log INFO msg_done \<and> \<not> is_initial_navigation ev \<and> \<not> is_close ev)"

text \<open>
  \<open>emits P m\<close>: every event of every run of \<open>m\<close> satisfies \<open>P\<close>.
  \<open>returns m\<close>: no run of \<open>m\<close> raises.
\<close>

definition emits :: "(event \<Rightarrow> bool) \<Rightarrow> ('w, 'a) io \<Rightarrow> bool" where
  "emits P m = (\<forall>w. list_all P (events (m w)))"

definition returns :: "('w, 'a) io \<Rightarrow> bool" where
  "returns m = (\<forall>w. is_ok (result (m w)))"

text \<open>
  How a run of the cookie-injection script can end: with status 0 after the report
  was reached, or with status 1 and no report.
\<close>

definition outcome :: "exn + nat \<Rightarrow> event list \<Rightarrow> bool" where
  "outcome r es = ((r = Inr 0 \<and> report_reached es) \<or> (r = Inr 1 \<and> \<not> report_reached es))"

text \<open>
  \<open>settled\<close> is the outcome of the steps after the first navigation: no navigation to
  the base address and no closing call. \<open>attempted\<close> is the outcome of the steps
  around it: at most one such navigation.
\<close>

definition settled :: "exn + nat \<Rightarrow> event list \<Rightarrow> bool" where
  "settled r es =
     (outcome r es \<and> \<not> list_ex is_initial_navigation es \<and> \<not> list_ex is_close es)"

definition attempted :: "exn + nat \<Rightarrow> event list \<Rightarrow> bool" where
  "attempted r es =
     (outcome r es \<and> length (filter is_initial_navigation es) \<le> 1 \<and> \<not> list_ex is_close es)"

definition teardown_failed :: "event list \<Rightarrow> bool" where
  "teardown_failed es = (Call ContextClose False \<in> set es \<or> Call BrowserClose False \<in> set es)"

text \<open>
  \<open>exits Q m\<close>: after any plain events, every run of \<open>m\<close> ends in a result and events
  that satisfy \<open>Q\<close>.
\<close>

definition exits :: "((exn + 'a) \<Rightarrow> event list \<Rightarrow> bool) \<Rightarrow> ('w, 'a) io \<Rightarrow> bool" where
  "exits Q m = (\<forall>w pre. list_all plain pre \<longrightarrow> Q (result (m w)) (pre @ events (m w)))"

definition finished :: "exn + nat \<Rightarrow> event list \<Rightarrow> bool" where
  "finished r es =
     ((exit_status r = 0 \<longleftrightarrow> report_reached es \<and> \<not> teardown_failed es) \<and>
      exit_status r \<le> 1 \<and> length (filter is_initial_navigation es) \<le> 1)"

definition is_login_navigation :: "event \<Rightarrow> bool" where
  "is_login_navigation ev =
     (ev = Call (Goto LOGIN_URL) True \<or> ev = Call (Goto LOGIN_URL) False)"

definition summary_prefix :: ustr where
  "summary_prefix = [0x1F4CA] @ lit '' '' @ [0x6267, 0x884C, 0x6C47, 0x603B] @ lit '': ''"

definition is_summary_line :: "event \<Rightarrow> bool" where
  "is_summary_line ev = (case ev of Log l m \<Rightarrow> startswith m summary_prefix | Call c ok \<Rightarrow> False)"

definition routine :: "event \<Rightarrow> bool" where
  "routine ev = (\<not> is_summary_line ev \<and> \<not> is_login_navigation ev)"

text \<open>\<open>shaped S m\<close>: the navigations to the login page of every run of \<open>m\<close> are in \<open>S\<close>.\<close>

definition shaped :: "event list set \<Rightarrow> ('w, 'a) io \<Rightarrow> bool" where
  "shaped S m = (\<forall>w. filter is_login_navigation (events (m w)) \<in> S)"

definition is_call :: "event \<Rightarrow> bool" where
  "is_call ev = (case ev of Log l m \<Rightarrow> False | Call c ok \<Rightarrow> True)"

definition calls :: "event list \<Rightarrow> event list" where
  "calls es = filter is_call es"

text \<open>
  The runs of the retry policy: up to three navigations to the login page, each failed
  one but the third followed by a pause of 3 seconds, ending with the first success
  or with the third failure.
\<close>

definition nav_ok :: event where "nav_ok = Call (Goto LOGIN_URL) True"

definition nav_failed :: event where "nav_failed = Call (Goto LOGIN_URL) False"

definition pause :: event where "pause = Call (Sleep 3) True"

definition retry_runs :: "event list set" where
  "retry_runs =
     {[nav_ok],
      [nav_failed, pause, nav_ok],
      [nav_failed, pause, nav_failed, pause, nav_ok],
      [nav_failed, pause, nav_failed, pause, nav_failed]}"

definition login_navigations :: "event list set" where
  "login_navigations =
     {[nav_ok], [nav_failed, nav_ok], [nav_failed, nav_failed, nav_ok],
      [nav_failed, nav_failed, nav_failed]}"

definition msg_server_failed :: "ustr \<Rightarrow> ustr \<Rightarrow> ustr" where
  "msg_server_failed name m =
     [0x274C] @ lit '' '' @ name @ lit '' '' @ [0x64CD, 0x4F5C, 0x5931, 0x8D25] @ lit '': '' @ m"

text \<open>
  What the page shows for a list of candidate selectors, read in order: the first
  candidate that matches an element, with the stripped text of its first element;
  nothing when no candidate matches; the exception when a read raises. The second
  component is the page after the reads.
\<close>

fun shown :: "'w driver \<Rightarrow> ustr list \<Rightarrow> 'w \<Rightarrow> (exn + (ustr \<times> ustr) option) \<times> 'w" where
  "shown dr [] w = (Inr None, w)"
| "shown dr (s # rest) w =
     (case drv_count dr (Locator s) w of
        (Inl e, w1) \<Rightarrow> (Inl e, w1)
      | (Inr n, w1) \<Rightarrow>
          if n > 0 then
            (case drv_inner_text dr (First s) w1 of
               (Inl e, w2) \<Rightarrow> (Inl e, w2)
             | (Inr t, w2) \<Rightarrow> (Inr (Some (s, strip t)), w2))
          else shown dr rest w1)"

text \<open>
  The renewal control and its label as the page shows them, after the first wait of 2
  seconds and the reads of the balance and of the expiration.
\<close>

definition label_shown :: "'w driver \<Rightarrow> 'w \<Rightarrow> (exn + (ustr \<times> ustr) option) \<times> 'w" where
  "label_shown dr w =
     (case drv_wait_for_timeout dr 2000 w of
        (Inl e, w1) \<Rightarrow> (Inl e, w1)
      | (Inr u, w1) \<Rightarrow>
          (case shown dr balance_selectors w1 of
             (Inl e, w2) \<Rightarrow> (Inl e, w2)
           | (Inr b, w2) \<Rightarrow>
               (case shown dr expiration_selectors w2 of
                  (Inl e, w3) \<Rightarrow> (Inl e, w3)
                | (Inr x, w3) \<Rightarrow> shown dr renew_selectors w3)))"

text \<open>
  Renewal is due: the page shows the renewal control \<open>s\<close> with a non-empty label that is
  judged free. Renewal has started: it is due, the click on the control returned and so
  did the wait of 2 seconds after it. The protocol fails with \<open>e\<close>: \<open>e\<close> is raised by a
  read up to the label, or renewal is due and \<open>e\<close> is raised by the click on the control
  or by the wait after it.
\<close>

definition renewal_due :: "'w driver \<Rightarrow> 'w \<Rightarrow> ustr \<Rightarrow> 'w \<Rightarrow> bool" where
  "renewal_due dr w s w4 =
     (\<exists>t. label_shown dr w = (Inr (Some (s, t)), w4) \<and> t \<noteq> [] \<and>
          is_free_label (drv_decimal dr) t)"

definition renewal_started :: "'w driver \<Rightarrow> 'w \<Rightarrow> 'w \<Rightarrow> bool" where
  "renewal_started dr w w6 =
     (\<exists>s w4 w5. renewal_due dr w s w4 \<and> drv_click dr (First s) w4 = (Inr (), w5) \<and>
        drv_wait_for_timeout dr 2000 w5 = (Inr (), w6))"

definition protocol_failure :: "'w driver \<Rightarrow> 'w \<Rightarrow> exn \<Rightarrow> bool" where
  "protocol_failure dr w e =
     ((\<exists>w'. label_shown dr w = (Inl e, w')) \<or>
      (\<exists>s w4 w5. renewal_due dr w s w4 \<and>
         (drv_click dr (First s) w4 = (Inl e, w5) \<or>
          (\<exists>w6. drv_click dr (First s) w4 = (Inr (), w5) \<and>
                drv_wait_for_timeout dr 2000 w5 = (Inl e, w6)))))"

text \<open>
  One confirmation candidate: whether it was present, visible and clicked, whether the
  wait of 3 seconds after the click returned as well, and the page afterwards. A raised
  exception ends the attempt.
\<close>

definition confirm_try :: "'w driver \<Rightarrow> ustr \<Rightarrow> 'w \<Rightarrow> bool \<times> bool \<times> 'w" where
  "confirm_try dr s w =
     (case drv_count dr (Locator s) w of
        (Inl e, w1) \<Rightarrow> (False, False, w1)
      | (Inr n, w1) \<Rightarrow>
          if n = 0 then (False, False, w1)
          else
            (case drv_is_visible dr (First s) w1 of
               (Inl e, w2) \<Rightarrow> (False, False, w2)
             | (Inr v, w2) \<Rightarrow>
                 if \<not> v then (False, False, w2)
                 else
                   (case drv_click dr (First s) w2 of
                      (Inl e, w3) \<Rightarrow> (False, False, w3)
                    | (Inr u, w3) \<Rightarrow>
                        (case drv_wait_for_timeout dr 3000 w3 of
                           (Inl e, w4) \<Rightarrow> (True, False, w4)
                         | (Inr u, w4) \<Rightarrow> (True, True, w4)))))"

text \<open>
  The candidates in order, each tried on the page the one before left: whether some
  candidate was clicked, and whether some attempt completed. The candidates after a
  completed attempt are not tried.
\<close>

fun confirm_spec :: "'w driver \<Rightarrow> ustr list \<Rightarrow> 'w \<Rightarrow> bool \<times> bool" where
  "confirm_spec dr [] w = (False, False)"
| "confirm_spec dr (s # rest) w =
     (case confirm_try dr s w of
        (clicked, completed, w') \<Rightarrow>
          if completed then (True, True)
          else (clicked \<or> fst (confirm_spec dr rest w'), snd (confirm_spec dr rest w')))"

section \<open>A collaborator for examples\<close>

text \<open>
  \<open>quiet\<close> is a collaborator in which nothing is configured and nothing is on the
  page: every call returns, no selector matches, the environment is empty. Its world is
  a counter that no operation changes; the examples below override single operations.
\<close>

definition ascii_decimal :: "nat \<Rightarrow> nat option" where
  "ascii_decimal c = (if 48 \<le> c \<and> c \<le> 57 then Some (c - 48) else None)"

definition quiet :: "nat driver" where
  "quiet = \<lparr>
     drv_environ = (\<lambda>n. None),
     drv_decimal = ascii_decimal,
     drv_lower = (\<lambda>s. s),
     drv_scrub = (\<lambda>s. s),
     drv_url = (\<lambda>w. []),
     drv_exists = (\<lambda>p w. False),
     drv_now = (\<lambda>w. []),
     drv_absolute = (\<lambda>p w. p),
     drv_inventory = (\<lambda>w. None),
     drv_sleep = (\<lambda>n w. w),
     drv_launch = (\<lambda>w. (Inr (), w)),
     drv_mkdir = (\<lambda>p w. (Inr (), w)),
     drv_goto = (\<lambda>url w. (Inr (), w)),
     drv_wait_for_timeout = (\<lambda>ms w. (Inr (), w)),
     drv_wait_for_load_state = (\<lambda>st w. (Inr (), w)),
     drv_wait_for_selector = (\<lambda>sel w. (Inr (), w)),
     drv_count = (\<lambda>l w. (Inr 0, w)),
     drv_get_attribute = (\<lambda>l a w. (Inr None, w)),
     drv_inner_text = (\<lambda>l w. (Inr [], w)),
     drv_text_content = (\<lambda>l w. (Inr None, w)),
     drv_click = (\<lambda>l w. (Inr (), w)),
     drv_fill = (\<lambda>l t w. (Inr (), w)),
     drv_press = (\<lambda>l k w. (Inr (), w)),
     drv_keyboard_type = (\<lambda>t w. (Inr (), w)),
     drv_keyboard_press = (\<lambda>k w. (Inr (), w)),
     drv_is_visible = (\<lambda>l w. (Inr False, w)),
     drv_screenshot = (\<lambda>p w. (Inr (), w)),
     drv_title = (\<lambda>w. (Inr [], w)),
     drv_remove_listener = (\<lambda>w. (Inr (), w)),
     drv_add_cookies = (\<lambda>cs w. (Inr (), w)),
     drv_cookies = (\<lambda>w. (Inr [], w)),
     drv_context_close = (\<lambda>w. (Inr (), w)),
     drv_browser_close = (\<lambda>w. (Inr (), w)),
     drv_write_text = (\<lambda>p t w. (Inr (), w)),
     drv_http_post = (\<lambda>url form file w. (Inr (200, []), w)),
     drv_put_secret = (\<lambda>tok repo n v w. (Inr (), w))
   \<rparr>"

text \<open>Example tokens.\<close>

definition example_cookie :: "ustr \<Rightarrow> ustr \<Rightarrow> cookie" where
  "example_cookie n v =
     \<lparr>cookie_name = n, cookie_value = v, cookie_domain = lit ''panel.bytte.cloud'',
      cookie_path = lit ''/'', cookie_secure = True, cookie_httpOnly = False,
      cookie_sameSite = lit ''Lax''\<rparr>"

definition example_tokens :: "cookie list" where
  "example_tokens =
     [example_cookie (lit ''_ga'') (lit ''b c''), example_cookie (lit ''unknown_token'') (lit ''c''),
      example_cookie (lit ''remember_web_x'') (lit ''a'')]"

text \<open>Pages for the renewal examples.\<close>

definition free_label :: ustr where "free_label = lit ''Renew Server - 0.00 USD''"

definition paid_label :: ustr where "paid_label = lit ''Renew Server - 4.99 USD''"

definition renewal_page :: "ustr \<Rightarrow> nat driver" where
  "renewal_page label =
     quiet\<lparr>drv_count := \<lambda>l w. (Inr 1, w), drv_inner_text := \<lambda>l w. (Inr label, w),
           drv_is_visible := \<lambda>l w. (Inr True, w)\<rparr>"

definition flaky_settle_page :: "nat driver" where
  "flaky_settle_page =
     (renewal_page free_label)\<lparr>drv_wait_for_timeout :=
        \<lambda>ms w. (if ms = 3000 then Inl (Exception (lit ''Target closed'')) else Inr (), w)\<rparr>"

definition broken_page :: "nat driver" where
  "broken_page = quiet\<lparr>drv_wait_for_timeout := \<lambda>ms w. (Inl (Exception (lit ''Target closed'')), w)\<rparr>"

definition attempt_events :: "ustr \<Rightarrow> event list" where
  "attempt_events s =
     [Call (Count (Locator s)) True, Call (IsVisible (First s)) True,
      Log INFO ([0x1F4DD] @ lit '' '' @
                     [0x627E, 0x5230, 0x786E, 0x8BA4, 0x6309, 0x94AE, 0xFF0C, 0x70B9, 0x51FB] @
                     lit '' '' @ [0x27] @ lit ''Yes, Renew Server'' @ [0x27] @ lit ''...''),
      Call (Click (First s)) True, Call (WaitForTimeout 3000) False]"

definition photo_down :: "nat driver" where
  "photo_down = quiet\<lparr>
     drv_environ := (\<lambda>n. if n = lit ''TG_BOT_TOKEN'' then Some (lit ''t'')
                          else if n = lit ''TG_CHAT_ID'' then Some (lit ''7'') else None),
     drv_exists := (\<lambda>p w. True),
     drv_http_post := (\<lambda>url form file w.
        case file of
          None \<Rightarrow> (Inr (200, []), w)
        | Some f \<Rightarrow> (Inl (Exception (lit ''connection reset'')), Suc w))\<rparr>"

definition unreachable :: "nat driver" where
  "unreachable = quiet\<lparr>
     drv_environ := (\<lambda>n. if n = lit ''PANEL_BYTTE_COOKIES'' then Some (lit ''a=b'') else None),
     drv_goto := (\<lambda>url w. (Inl (PlaywrightTimeout (lit ''Timeout 60000ms exceeded'')), w))\<rparr>"

definition stuck :: "nat driver" where
  "stuck = quiet\<lparr>
     drv_environ := (\<lambda>n. if n = lit ''DATA_ACCOUNT''
                          then Some (lit ''u1----p1----c1'' @ [10] @ lit ''u2----p2----c2'')
                          else None),
     drv_goto := (\<lambda>url w. (Inl (Exception (lit ''net::ERR_CONNECTION_REFUSED'')), w)),
     drv_screenshot := (\<lambda>p w. (Inl (Exception (lit ''screenshot failed'')), w))\<rparr>"

definition leaky :: "nat driver" where
  "leaky = quiet\<lparr>
     drv_goto := (\<lambda>url w. (Inl (Exception (lit ''Page.goto: net::ERR_ABORTED at '' @ url)), w))\<rparr>"

definition zero_label :: ustr where "zero_label = lit ''Renew Server - 0 USD''"

definition wordy_label :: ustr where "wordy_label = lit ''Renew Server - free''"

definition padded_token :: cookie where
  "padded_token = example_cookie (lit ''_ga '') (lit ''a'')"

section \<open>Reasoning about computations\<close>

lemma wp_ret [simp]: "wp (ret x) Q w = Q (Inr x) w []"
  by (simp add: wp_def ret_def)

lemma wp_raise [simp]: "wp (raise e) Q w = Q (Inl e) w []"
  by (simp add: wp_def raise_def)

lemma wp_log [simp]: "wp (log l m) Q w = Q (Inr ()) w [Log l m]"
  by (simp add: wp_def log_def emit_def)

lemma wp_observe [simp]: "wp (observe f) Q w = Q (Inr (f w)) w []"
  by (simp add: wp_def observe_def)

lemma wp_bind [simp]:
  "wp (bind m f) Q w =
     wp m (\<lambda>r w' es. case r of Inl e \<Rightarrow> Q (Inl e) w' es
                            | Inr x \<Rightarrow> wp (f x) (\<lambda>r' w'' es'. Q r' w'' (es @ es')) w') w"
  by (simp add: wp_def bind_def split: prod.splits sum.splits)

lemma wp_try_step [simp]:
  "wp (try_step m h k) Q w =
     wp m (\<lambda>r w' es. case r of Inl e \<Rightarrow> wp (h e) (\<lambda>r' w'' es'. Q r' w'' (es @ es')) w'
                            | Inr x \<Rightarrow> wp (k x) (\<lambda>r' w'' es'. Q r' w'' (es @ es')) w') w"
  by (simp add: wp_def try_step_def split: prod.splits sum.splits)

lemma wp_catch [simp]:
  "wp (catch m h) Q w =
     wp m (\<lambda>r w' es. case r of Inl e \<Rightarrow> wp (h e) (\<lambda>r' w'' es'. Q r' w'' (es @ es')) w'
                            | Inr x \<Rightarrow> Q (Inr x) w' es) w"
  by (simp add: wp_def catch_def try_step_def ret_def split: prod.splits sum.splits)

lemma wp_try_finally [simp]:
  "wp (try_finally m f) Q w =
     wp m (\<lambda>r w' es. wp f (\<lambda>r' w'' es'. case r' of Inl e \<Rightarrow> Q (Inl e) w'' (es @ es')
                                               | Inr u \<Rightarrow> Q r w'' (es @ es')) w') w"
  by (simp add: wp_def try_finally_def split: prod.splits sum.splits)

lemma wp_perform [simp]:
  "wp (perform c op) Q w =
     (\<forall>w'. (\<forall>e. op w = (Inl e, w') \<longrightarrow> Q (Inl e) w' [Call c False]) \<and>
           (\<forall>x. op w = (Inr x, w') \<longrightarrow> Q (Inr x) w' [Call c True]))"
  by (auto simp: wp_def perform_def is_ok_def split: prod.splits sum.splits)

lemma wp_if [simp]: "wp (if b then m else n) Q w = (if b then wp m Q w else wp n Q w)"
  by simp

lemma wpI: "wp m (\<lambda>r w' es. P r es) w \<Longrightarrow> P (result (m w)) (events (m w))"
  by (simp add: wp_def result_def events_def split: prod.splits)

lemma wp_mono: "wp m Q w \<Longrightarrow> (\<And>r w' es. Q r w' es \<Longrightarrow> Q' r w' es) \<Longrightarrow> wp m Q' w"
  by (auto simp: wp_def split: prod.splits)

lemmas call_defs = page_goto_def wait_for_timeout_def locator_count_def get_attribute_def
  inner_text_def click_def is_visible_def page_screenshot_def

section \<open>The restart decision\<close>

text \<open>
  C7. The restart decision is a function of the two controls: restart is needed exactly
  when the start control exists and is not disabled, or the stop control exists and is
  disabled; with neither control the verdict is "no action needed". The inspection
  never raises, and whenever one of its reads raises the verdict is "no action needed".
\<close>

theorem check_need_restart_decision:
  "(\<exists>b. result (check_need_restart dr w) = Inr b) \<and>
   (controls_read dr w sc sa pc pa \<longrightarrow>
      result (check_need_restart dr w) = Inr (restart_needed (control sc sa) (control pc pa))) \<and>
   (some_call_raised (events (check_need_restart dr w)) \<longrightarrow>
      result (check_need_restart dr w) = Inr False)"
proof (intro conjI impI)
  show "\<exists>b. result (check_need_restart dr w) = Inr b"
    by (rule wpI [where P = "\<lambda>r es. \<exists>b. r = Inr b"])
       (auto simp: check_need_restart_def check_stop_btn_def call_defs)
next
  assume "controls_read dr w sc sa pc pa"
  then show "result (check_need_restart dr w) =
      Inr (restart_needed (control sc sa) (control pc pa))"
    by (intro wpI [where P = "\<lambda>r es. r = Inr (restart_needed (control sc sa) (control pc pa))"])
       (auto simp: controls_read_def check_need_restart_def check_stop_btn_def call_defs
          restart_needed_def control_def split: if_splits)
next
  assume "some_call_raised (events (check_need_restart dr w))"
  then show "result (check_need_restart dr w) = Inr False"
    by (intro wpI [where P = "\<lambda>r es. some_call_raised es \<longrightarrow> r = Inr False", rule_format])
       (auto simp: some_call_raised_def check_need_restart_def check_stop_btn_def call_defs)
qed

text \<open>
  The theorem at a page with no start control and a disabled stop control, and at a
  page whose first read raises.
\<close>

theorem check_need_restart_decision_witness:
  "controls_read (quiet\<lparr>drv_count := \<lambda>l w. (Inr (if l = Locator power_stop then 1 else 0), w),
                        drv_get_attribute := \<lambda>l a w. (Inr (Some []), w)\<rparr>) 0 0 None 1 (Some []) \<and>
   result (check_need_restart
             (quiet\<lparr>drv_count := \<lambda>l w. (Inr (if l = Locator power_stop then 1 else 0), w),
                    drv_get_attribute := \<lambda>l a w. (Inr (Some []), w)\<rparr>) 0) = Inr True \<and>
   some_call_raised
     (events (check_need_restart (quiet\<lparr>drv_count := \<lambda>l w. (Inl (Exception []), w)\<rparr>) 0)) \<and>
   result (check_need_restart (quiet\<lparr>drv_count := \<lambda>l w. (Inl (Exception []), w)\<rparr>) 0) = Inr False"
proof -
  let ?dr = "quiet\<lparr>drv_count := \<lambda>l w. (Inr (if l = Locator power_stop then 1 else 0), w),
                   drv_get_attribute := \<lambda>l a w. (Inr (Some []), w)\<rparr>"
  let ?bad = "quiet\<lparr>drv_count := \<lambda>l w. (Inl (Exception []), w)\<rparr>"
  have ne: "power_start \<noteq> power_stop"
    by (simp add: power_start_def power_stop_def lit_def)
  have r: "controls_read ?dr 0 0 None 1 (Some [])"
    using ne by (simp add: controls_read_def)
  have e: "some_call_raised (events (check_need_restart ?bad 0))"
    by (simp add: some_call_raised_def events_def check_need_restart_def catch_def
        try_step_def bind_def call_defs perform_def is_ok_def log_def emit_def ret_def)
  from check_need_restart_decision [of ?dr 0 0 None 1 "Some []"] r
  have "result (check_need_restart ?dr 0) = Inr True"
    by (simp add: restart_needed_def control_def)
  moreover from check_need_restart_decision [of ?bad 0 0 None 0 None] e
  have "result (check_need_restart ?bad 0) = Inr False"
    by simp
  ultimately show ?thesis using r e by simp
qed

section \<open>Credential rotation\<close>

lemma important_recognized: "important c = recognized c"
  by (force simp: important_def recognized_def list_ex_iff startswith_def)

lemma insort_key_skip:
  "\<forall>y\<in>set as. k y < k x \<Longrightarrow> insort_key k x (as @ bs) = as @ insort_key k x bs"
  by (induction as) auto

lemma insort_key_front:
  "\<forall>y\<in>set bs. k x \<le> k y \<Longrightarrow> insort_key k x bs = x # bs"
  by (cases bs) auto

lemma sort_key_classes:
  fixes k :: "'a \<Rightarrow> nat"
  assumes "\<forall>x\<in>set xs. k x \<in> {0, 1, 2, 3, 10}"
  shows "sort_key k xs =
     filter (\<lambda>x. k x = 0) xs @ filter (\<lambda>x. k x = 1) xs @ filter (\<lambda>x. k x = 2) xs @
     filter (\<lambda>x. k x = 3) xs @ filter (\<lambda>x. k x = 10) xs"
  using assms
proof (induction xs)
  case Nil
  then show ?case by simp
next
  case (Cons x xs)
  let ?F = "\<lambda>i. filter (\<lambda>x. k x = i) xs"
  have ih: "sort_key k xs = ?F 0 @ ?F 1 @ ?F 2 @ ?F 3 @ ?F 10"
    using Cons by simp
  have step: "sort_key k (x # xs) = insort_key k x (?F 0 @ ?F 1 @ ?F 2 @ ?F 3 @ ?F 10)"
    by (simp add: ih)
  from Cons.prems consider "k x = 0" | "k x = 1" | "k x = 2" | "k x = 3" | "k x = 10"
    by auto
  then show ?case
  proof cases
    case 1
    then show ?thesis unfolding step by (subst insort_key_front) auto
  next
    case 2
    then show ?thesis unfolding step
      by (subst insort_key_skip, simp) (subst insort_key_front, auto)
  next
    case 3
    have "insort_key k x ((?F 0 @ ?F 1) @ ?F 2 @ ?F 3 @ ?F 10) = (?F 0 @ ?F 1) @ insort_key k x (?F 2 @ ?F 3 @ ?F 10)"
      by (rule insort_key_skip) (use 3 in auto)
    moreover have "insort_key k x (?F 2 @ ?F 3 @ ?F 10) = x # (?F 2 @ ?F 3 @ ?F 10)"
      by (rule insort_key_front) (use 3 in auto)
    ultimately show ?thesis unfolding step using 3 by simp
  next
    case 4
    have "insort_key k x ((?F 0 @ ?F 1 @ ?F 2) @ ?F 3 @ ?F 10) = (?F 0 @ ?F 1 @ ?F 2) @ insort_key k x (?F 3 @ ?F 10)"
      by (rule insort_key_skip) (use 4 in auto)
    moreover have "insort_key k x (?F 3 @ ?F 10) = x # (?F 3 @ ?F 10)"
      by (rule insort_key_front) (use 4 in auto)
    ultimately show ?thesis unfolding step using 4 by simp
  next
    case 5
    have "insort_key k x ((?F 0 @ ?F 1 @ ?F 2 @ ?F 3) @ ?F 10) = (?F 0 @ ?F 1 @ ?F 2 @ ?F 3) @ insort_key k x (?F 10)"
      by (rule insort_key_skip) (use 5 in auto)
    moreover have "insort_key k x (?F 10) = x # ?F 10"
      by (rule insort_key_front) (use 5 in auto)
    ultimately show ?thesis unfolding step using 5 by simp
  qed
qed

lemma key_range: "cookie_sort_key c \<in> {0, 1, 2, 3, 10}"
  by (simp add: cookie_sort_key_def)

lemma lit_simps:
  "startswith (lit ''pterodactyl_session'') (lit ''remember_web'') = False"
  "startswith (lit ''XSRF-TOKEN'') (lit ''remember_web'') = False"
  "startswith (lit ''pterodactyl_session'') (lit ''cf_'') = False"
  "startswith (lit ''XSRF-TOKEN'') (lit ''cf_'') = False"
  "lit ''pterodactyl_session'' \<noteq> lit ''XSRF-TOKEN''"
  by (simp_all add: startswith_def lit_def)

lemma cf_not_remember:
  "startswith n (lit ''cf_'') \<Longrightarrow> \<not> startswith n (lit ''remember_web'')"
  by (cases n) (auto simp: startswith_def lit_def)

lemma key_class:
  "(cookie_sort_key c = 0) = is_remember c"
  "(cookie_sort_key c = 1) = is_session c"
  "(cookie_sort_key c = 2) = is_xsrf c"
  "(cookie_sort_key c = 3) = is_cf c"
  "(cookie_sort_key c = 10) = (\<not> is_remember c \<and> \<not> is_session c \<and> \<not> is_xsrf c \<and> \<not> is_cf c)"
  using cf_not_remember [of "cookie_name c"]
  by (auto simp: cookie_sort_key_def is_remember_def is_session_def is_xsrf_def is_cf_def lit_simps)

lemma filtered_sorted_priority:
  "filtered_sorted cookies = priority_order (filter recognized cookies)"
proof -
  have "filter important cookies = filter recognized cookies"
    by (simp add: important_recognized [abs_def])
  then show ?thesis
    unfolding filtered_sorted_def priority_order_def
    by (simp add: sort_key_classes [OF ballI, OF key_range] key_class key_class(2) [unfolded One_nat_def])
qed


lemma cookie_parts_Inr:
  "cookie_parts cs = Inr ps \<Longrightarrow>
   ps = map (\<lambda>c. cookie_name c @ lit ''='' @ percent_encoded (cookie_value c)) cs"
  by (induction cs arbitrary: ps) (auto simp: percent_encoded_def split: sum.splits)

lemma utf8_encode_from_ok:
  "\<not> list_ex is_surrogate s \<Longrightarrow> utf8_encode_from i s = Inr (concat (map utf8_char s))"
  by (induction s arbitrary: i) auto

lemma quote_ok:
  "\<not> list_ex is_surrogate v \<Longrightarrow> quote v = Inr (concat (map quote_byte (concat (map utf8_char v))))"
  by (simp add: quote_def utf8_encode_def utf8_encode_from_ok)

lemma cookie_parts_ok:
  "\<forall>c\<in>set cs. \<not> list_ex is_surrogate (cookie_value c) \<Longrightarrow>
   cookie_parts cs = Inr (map (\<lambda>c. cookie_name c @ lit ''='' @ percent_encoded (cookie_value c)) cs)"
  by (induction cs) (auto simp: percent_encoded_def quote_ok)

lemma wp_log_all [simp]: "wp (log_all l ms) Q w = Q (Inr ()) w (map (Log l) ms)"
  by (induction ms arbitrary: Q) auto

lemma wp_let [simp]: "wp (let x = v in f x) Q w = wp (f v) Q w"
  by simp

lemma serialization_empty: "filter recognized cookies = [] \<Longrightarrow> serialization cookies = []"
  by (simp add: serialization_def priority_order_def)

lemma join_filtered_sorted:
  "join (lit ''; '')
     (map (\<lambda>c. cookie_name c @ lit ''='' @ percent_encoded (cookie_value c))
        (filtered_sorted cookies)) = serialization cookies"
  by (simp add: serialization_def filtered_sorted_priority)

lemma save_cookies_result:
  "result (save_cookies_for_update dr cookies w) = Inr s \<Longrightarrow> s = serialization cookies"
proof -
  have "wp (save_cookies_for_update dr cookies)
          (\<lambda>r w' es. \<forall>s. r = Inr s \<longrightarrow> s = serialization cookies) w"
    by (cases "filter recognized cookies = []")
       (auto simp: save_cookies_for_update_def important_recognized [abs_def]
          serialization_empty join_filtered_sorted dest!: cookie_parts_Inr split: sum.splits)
  from wpI [where P = "\<lambda>r es. \<forall>s. r = Inr s \<longrightarrow> s = serialization cookies", OF this]
  show "result (save_cookies_for_update dr cookies w) = Inr s \<Longrightarrow> s = serialization cookies"
    by simp
qed

lemma save_cookies_ok:
  assumes "\<forall>c\<in>set cookies. \<not> list_ex is_surrogate (cookie_value c)"
    and "drv_write_text dr new_cookies_file (serialization cookies) w = (Inr (), w1)"
  shows "result (save_cookies_for_update dr cookies w) = Inr (serialization cookies)"
proof -
  have p: "cookie_parts (filtered_sorted cookies) =
      Inr (map (\<lambda>c. cookie_name c @ lit ''='' @ percent_encoded (cookie_value c))
             (filtered_sorted cookies))"
    by (rule cookie_parts_ok) (use assms(1) in \<open>auto simp: filtered_sorted_def\<close>)
  have "wp (save_cookies_for_update dr cookies) (\<lambda>r w' es. r = Inr (serialization cookies)) w"
    using assms(2)
    by (cases "filter recognized cookies = []")
       (auto simp: save_cookies_for_update_def p important_recognized [abs_def]
          serialization_empty join_filtered_sorted)
  from wpI [where P = "\<lambda>r es. r = Inr (serialization cookies)", OF this] show ?thesis .
qed

lemma save_cookies_none:
  assumes "filter recognized cookies = []"
  shows "wp (save_cookies_for_update dr cookies)
           (\<lambda>r w' es. r = Inr [] \<and> \<not> list_ex is_rotation_call es) w"
  using assms
  by (simp add: save_cookies_for_update_def important_recognized [abs_def] is_rotation_call_def)

lemma rotate_none:
  assumes "filter recognized cookies = []" and "drv_cookies dr w = (Inr cookies, w1)"
  shows "wp (rotate_cookies dr) (\<lambda>r w' es. r = Inr [] \<and> \<not> list_ex is_rotation_call es) w"
  using assms
  by (auto simp: rotate_cookies_def is_rotation_call_def
      intro!: wp_mono [OF save_cookies_none [of cookies dr w1]])

text \<open>
  C6. The serialised rotation output is the recognised tokens in priority order
  (\<open>remember_web*\<close>, \<open>pterodactyl_session\<close>, \<open>XSRF-TOKEN\<close>, \<open>cf_*\<close>, the others;
  the input order within a class), each as \<open>name=value\<close> with the value
  percent-encoded, joined with \<open>"; "\<close>; unrecognised tokens are dropped. The output is
  produced whenever the values can be encoded and the file write returns. When no token
  is recognised, the output is empty, nothing is written, the secret store is not
  called, and no error is raised.
\<close>

theorem rotation_output:
  "(result (save_cookies_for_update dr cookies w) = Inr s \<longrightarrow> s = serialization cookies) \<and>
   ((\<forall>c\<in>set cookies. \<not> list_ex is_surrogate (cookie_value c)) \<and>
    drv_write_text dr new_cookies_file (serialization cookies) w = (Inr (), w1) \<longrightarrow>
      result (save_cookies_for_update dr cookies w) = Inr (serialization cookies)) \<and>
   (filter recognized cookies = [] \<and> drv_cookies dr w = (Inr cookies, w1) \<longrightarrow>
      result (rotate_cookies dr w) = Inr [] \<and>
      \<not> list_ex is_rotation_call (events (rotate_cookies dr w)))"
  using save_cookies_result [of dr cookies w s] save_cookies_ok [of cookies dr w w1]
    wpI [where P = "\<lambda>r es. r = Inr [] \<and> \<not> list_ex is_rotation_call es",
         OF rotate_none [of cookies dr w w1]]
  by blast

lemma example_tokens_encodable: "\<forall>c\<in>set example_tokens. \<not> list_ex is_surrogate (cookie_value c)"
  by (simp add: example_tokens_def example_cookie_def lit_def is_surrogate_def)

lemma example_unknown_dropped: "filter recognized [example_cookie (lit ''unknown_token'') (lit ''c'')] = []"
  by (simp add: recognized_def important_names_def example_cookie_def startswith_def lit_def)


lemma example_encoded_1: "percent_encoded (lit ''b c'') = lit ''b%20c''"
  by (simp add: percent_encoded_def quote_def utf8_encode_def lit_def is_surrogate_def utf8_char_def
      quote_byte_def always_safe_def hex_upper_def)

lemma example_encoded_2: "percent_encoded (lit ''a'') = lit ''a''"
  by (simp add: percent_encoded_def quote_def utf8_encode_def lit_def is_surrogate_def utf8_char_def
      quote_byte_def always_safe_def hex_upper_def)

lemma example_serialization: "serialization example_tokens = lit ''remember_web_x=a; _ga=b%20c''"
proof -
  have "filter recognized example_tokens =
      [example_cookie (lit ''_ga'') (lit ''b c''), example_cookie (lit ''remember_web_x'') (lit ''a'')]"
    by (simp add: example_tokens_def recognized_def important_names_def example_cookie_def
        startswith_def lit_def)
  moreover have "priority_order
      [example_cookie (lit ''_ga'') (lit ''b c''), example_cookie (lit ''remember_web_x'') (lit ''a'')] =
      [example_cookie (lit ''remember_web_x'') (lit ''a''), example_cookie (lit ''_ga'') (lit ''b c'')]"
    by (simp add: priority_order_def is_remember_def is_session_def is_xsrf_def is_cf_def
        example_cookie_def startswith_def lit_def)
  ultimately show ?thesis
    by (simp add: serialization_def example_encoded_1 example_encoded_2 example_cookie_def) (simp add: lit_def)
qed


text \<open>The specification's example: \<open>_ga\<close>, \<open>unknown_token\<close>, \<open>remember_web_x\<close>.\<close>

theorem rotation_output_witness:
  "result (save_cookies_for_update quiet example_tokens 0) = Inr (lit ''remember_web_x=a; _ga=b%20c'') \<and>
   lit ''remember_web_x=a; _ga=b%20c'' = serialization example_tokens \<and>
   filter recognized [example_cookie (lit ''unknown_token'') (lit ''c'')] = [] \<and>
   result (rotate_cookies
             (quiet\<lparr>drv_cookies := \<lambda>w. (Inr [example_cookie (lit ''unknown_token'') (lit ''c'')], w)\<rparr>)
             0) = Inr [] \<and>
   \<not> list_ex is_rotation_call
       (events (rotate_cookies
          (quiet\<lparr>drv_cookies := \<lambda>w. (Inr [example_cookie (lit ''unknown_token'') (lit ''c'')], w)\<rparr>)
          0))"
proof -
  let ?dr = "quiet\<lparr>drv_cookies := \<lambda>w. (Inr [example_cookie (lit ''unknown_token'') (lit ''c'')], w)\<rparr>"
  have b: "drv_write_text quiet new_cookies_file (serialization example_tokens) 0 = (Inr (), 0)"
    by (simp add: quiet_def)
  have e: "drv_cookies ?dr 0 = (Inr [example_cookie (lit ''unknown_token'') (lit ''c'')], 0)"
    by simp
  from rotation_output [of quiet example_tokens 0 "lit ''remember_web_x=a; _ga=b%20c''" 0]
    example_tokens_encodable b example_serialization
  have 1: "result (save_cookies_for_update quiet example_tokens 0) = Inr (lit ''remember_web_x=a; _ga=b%20c'')"
    by simp
  from rotation_output [of ?dr "[example_cookie (lit ''unknown_token'') (lit ''c'')]" 0 "[]" 0]
    example_unknown_dropped e
  have 2: "result (rotate_cookies ?dr 0) = Inr [] \<and>
      \<not> list_ex is_rotation_call (events (rotate_cookies ?dr 0))"
    by blast
  from 1 2 example_serialization example_unknown_dropped show ?thesis by simp
qed

section \<open>Renewal\<close>

lemma click_simps [simp]:
  "is_click (Log a b) = False" "is_click (Call (Click l) ok) = True"
  "is_click (Call (Count l) ok) = False" "is_click (Call (InnerText l) ok) = False"
  "is_click (Call (WaitForTimeout n) ok) = False" "is_click (Call (IsVisible l) ok) = False"
  by (simp_all add: is_click_def)

lemma settled_simps [simp]:
  "confirmation_settled [] = False"
  "confirmation_settled (ev # es) = (ev = Call (WaitForTimeout 3000) True \<or> confirmation_settled es)"
  "confirmation_settled (es @ es') = (confirmation_settled es \<or> confirmation_settled es')"
  by (auto simp: confirmation_settled_def)

lemma clicked_simps [simp]:
  "confirmation_clicked [] = False"
  "confirmation_clicked (es @ es') = (confirmation_clicked es \<or> confirmation_clicked es')"
  "confirmation_clicked (Log a b # es) = confirmation_clicked es"
  "confirmation_clicked (Call (Count l) ok # es) = confirmation_clicked es"
  "confirmation_clicked (Call (InnerText l) ok # es) = confirmation_clicked es"
  "confirmation_clicked (Call (IsVisible l) ok # es) = confirmation_clicked es"
  "confirmation_clicked (Call (WaitForTimeout n) ok # es) = confirmation_clicked es"
  "confirmation_clicked (Call (Click l) False # es) = confirmation_clicked es"
  by (auto simp: confirmation_clicked_def)

lemma first_match_post:
  "wp (first_match dr p sels) (\<lambda>r w' es. fm_post p r es) w"
proof (induction sels arbitrary: w)
  case Nil
  then show ?case by (simp add: fm_post_def)
next
  case (Cons s sels)
  have *: "\<And>w' x. wp (first_match dr p sels)
        (\<lambda>r w'' es'. fm_post p r (Call (Count (Locator s)) True # es')) w'"
    by (rule wp_mono [OF Cons.IH]) (auto simp: fm_post_def)
  show ?case
    by (auto simp: call_defs * ) (auto simp: fm_post_def)
qed

lemma first_match_rule:
  "(\<And>r w' es. fm_post p r es \<Longrightarrow> Q r w' es) \<Longrightarrow> wp (first_match dr p sels) Q w"
  by (rule wp_mono [OF first_match_post])

lemma label_simps [simp]:
  "label_read [] l = False"
  "label_read (es @ es') l = (label_read es l \<or> label_read es' l)"
  "label_read (Call c ok # es) l = label_read es l"
  "label_read (Log lv m # es) l = ((lv = INFO \<and> m = renew_found @ l) \<or> label_read es l)"
  by (auto simp: label_read_def)

lemma handler_simps [simp]:
  "handler_ran [] = False"
  "handler_ran (es @ es') = (handler_ran es \<or> handler_ran es')"
  "handler_ran (Call c ok # es) = handler_ran es"
  "handler_ran (Log lv m # es) = (lv = ERROR \<or> handler_ran es)"
  by (auto simp: handler_ran_def)

lemma levels [simp]: "INFO \<noteq> ERROR" "WARN \<noteq> ERROR" "ERROR \<noteq> INFO" "WARN \<noteq> INFO"
  by (simp_all add: INFO_def ERROR_def WARN_def lit_def)

lemma renew_found_cons: "renew_found @ l = 0x1F518 # (tl renew_found @ l)"
  by (simp add: renew_found_def)

lemma confirm_attempt_post:
  "wp (confirm_attempt dr s)
     (\<lambda>r w' es. (\<forall>l. \<not> label_read es l) \<and> \<not> handler_ran es \<and>
        (confirmation_settled es \<longleftrightarrow> r = Inr True) \<and>
        (confirmation_settled es \<longrightarrow> Call (Click (First s)) True \<in> set es)) w"
  by (auto simp: confirm_attempt_def call_defs renew_found_cons)

lemma confirm_loop_post:
  "wp (confirm_loop dr sels) (\<lambda>r w' es. cl_post sels r es) w"
proof (induction sels arbitrary: w)
  case Nil
  then show ?case by (simp add: cl_post_def)
next
  case (Cons s sels)
  show ?case
    apply simp
    apply (rule wp_mono [OF confirm_attempt_post])
    apply (auto split: sum.splits simp: cl_post_def intro!: wp_mono [OF Cons.IH])
    done
qed

lemma fm_post_handler: "fm_post p r es \<Longrightarrow> \<not> handler_ran es"
  by (auto simp: fm_post_def handler_ran_def)

lemma fm_post_label:
  "fm_post p r es \<Longrightarrow> label_read es l \<longleftrightarrow> (\<exists>s. r = Inr (Some (s, l)) \<and> p = renew_found) \<or>
      (\<exists>s t. r = Inr (Some (s, t)) \<and> p @ t = renew_found @ l \<and> p \<noteq> renew_found)"
  by (auto simp: fm_post_def label_read_def)

lemma renew_free_post:
  assumes "need_renew r" "\<not> renewed r"
  shows "wp (renew_free dr r s)
     (\<lambda>r' w' es. \<exists>rr. r' = Inr rr \<and> need_renew rr \<and> (\<forall>l. \<not> label_read es l) \<and>
        (renewed rr \<longleftrightarrow> confirmation_settled es) \<and>
        (confirmation_settled es \<longrightarrow> confirmation_clicked es) \<and>
        (renewed rr \<longrightarrow> message rr = msg_renew_ok) \<and>
        (\<not> renewed rr \<and> \<not> handler_ran es \<longrightarrow> message rr = msg_no_confirm) \<and>
        (handler_ran es \<longrightarrow> \<not> renewed rr \<and> (\<exists>e. message rr = msg_check_failed @ take 50 e))) w"
  using assms
  apply (simp add: renew_free_def renew_failed_def call_defs renew_found_cons)
  apply (intro allI conjI impI)
   apply (auto simp: renew_found_cons cl_post_def confirmation_clicked_def
      intro!: wp_mono [OF confirm_loop_post])
  done

lemma price_log_neq: "[0x1F4B5] @ x \<noteq> renew_found @ l"
  by (simp add: renew_found_cons)

lemma renew_decide_post:
  assumes "\<not> need_renew r" "\<not> renewed r"
  shows "wp (renew_decide dr r s t)
     (\<lambda>r' w' es. \<exists>rr. r' = Inr rr \<and> (need_renew rr \<longleftrightarrow> is_free_label (drv_decimal dr) t) \<and>
        (\<forall>l. \<not> label_read es l) \<and>
        (\<not> need_renew rr \<longrightarrow> \<not> list_ex is_click es) \<and>
        (renewed rr \<longleftrightarrow> confirmation_settled es) \<and>
        (confirmation_settled es \<longrightarrow> confirmation_clicked es) \<and>
        (renewed rr \<longrightarrow> message rr = msg_renew_ok) \<and>
        (need_renew rr \<and> \<not> renewed rr \<and> \<not> handler_ran es \<longrightarrow> message rr = msg_no_confirm) \<and>
        (handler_ran es \<longrightarrow> \<not> renewed rr \<and> (\<exists>e. message rr = msg_check_failed @ take 50 e))) w"
proof (cases "is_free_label (drv_decimal dr) t")
  case True
  show ?thesis
    using True assms
    by (auto simp: renew_decide_def Let_def renew_found_cons intro!: wp_mono [OF renew_free_post])
next
  case False
  then show ?thesis
    using assms
    by (auto simp: renew_decide_def Let_def renew_found_cons)
qed

lemma renew_post_prefix:
  "quiet_events es0 \<Longrightarrow> renew_post dec r es \<Longrightarrow> renew_post dec r (es0 @ es)"
  by (auto simp: quiet_events_def renew_post_def)

lemma renew_post_prefix_mono:
  assumes "quiet_events es0" and "wp m (\<lambda>r w' es. renew_post dec r es) w"
  shows "wp m (\<lambda>r w' es. renew_post dec r (es0 @ es)) w"
  by (rule wp_mono [OF assms(2)]) (rule renew_post_prefix [OF assms(1)])

lemma renew_failed_post:
  assumes "\<not> need_renew r0" "\<not> renewed r0"
  shows "wp (renew_failed r0 e) (\<lambda>r w' es. renew_post dec r es) w"
  using assms by (auto simp: renew_failed_def renew_post_def renew_found_cons)

lemma fm_quiet:
  assumes "fm_post p r es" and "\<And>t l. p @ t \<noteq> renew_found @ l"
  shows "quiet_events es"
  using assms(1) assms(2) assms(2) [THEN not_sym]
  by (auto simp: fm_post_def quiet_events_def label_read_def handler_ran_def)

lemma found_neq:
  "balance_found @ t \<noteq> renew_found @ l" "expiration_found @ t \<noteq> renew_found @ l"
  by (simp_all add: renew_found_cons balance_found_def expiration_found_def)

lemma renew_not_found_post:
  assumes "\<not> need_renew r0" "\<not> renewed r0"
    and "\<forall>l. label_read es l \<longrightarrow> l = []" "\<not> list_ex is_click es" "\<not> confirmation_settled es"
    "\<not> confirmation_clicked es" "\<not> handler_ran es"
  shows "wp (renew_not_found r0) (\<lambda>r' w'' es'. renew_post dec r' (es @ es')) w"
  using assms by (auto simp: renew_not_found_def renew_post_def renew_found_cons)

lemma on_renew_button_post:
  assumes nr: "\<not> need_renew r2" "\<not> renewed r2" and fm: "fm_post renew_found (Inr btn) es"
  shows "wp (on_renew_button dr r2 btn) (\<lambda>r' w'' es'. renew_post (drv_decimal dr) r' (es @ es')) w"
proof -
  from fm have q: "\<not> list_ex is_click es" "\<not> confirmation_settled es"
      "\<not> confirmation_clicked es" "\<not> handler_ran es"
    by (auto simp: fm_post_def handler_ran_def)
  show ?thesis
  proof (cases btn)
    case None
    with fm have "\<forall>l. label_read es l \<longrightarrow> l = []"
      by (auto simp: fm_post_def label_read_def)
    then show ?thesis
      using None by (simp add: on_renew_button_def renew_not_found_post [OF nr _ q])
  next
    case (Some st)
    obtain s t where st: "st = (s, t)" by (cases st)
    from fm Some st have l: "\<forall>l. label_read es l \<longleftrightarrow> l = t"
      by (auto simp: fm_post_def label_read_def)
    show ?thesis
    proof (cases "t = []")
      case True
      with l have "\<forall>l. label_read es l \<longrightarrow> l = []" by simp
      then show ?thesis
        using Some st True by (simp add: on_renew_button_def renew_not_found_post [OF nr _ q])
    next
      case False
      have "wp (renew_decide dr r2 s t)
           (\<lambda>r' w'' es'. renew_post (drv_decimal dr) r' (es @ es')) w"
      proof (rule wp_mono [OF renew_decide_post [OF nr]])
        fix r' :: "exn + renew_result" and w' :: 'a and es'
        assume "\<exists>rr. r' = Inr rr \<and> (need_renew rr \<longleftrightarrow> is_free_label (drv_decimal dr) t) \<and>
          (\<forall>l. \<not> label_read es' l) \<and>
          (\<not> need_renew rr \<longrightarrow> \<not> list_ex is_click es') \<and>
          (renewed rr \<longleftrightarrow> confirmation_settled es') \<and>
          (confirmation_settled es' \<longrightarrow> confirmation_clicked es') \<and>
          (renewed rr \<longrightarrow> message rr = msg_renew_ok) \<and>
          (need_renew rr \<and> \<not> renewed rr \<and> \<not> handler_ran es' \<longrightarrow> message rr = msg_no_confirm) \<and>
          (handler_ran es' \<longrightarrow> \<not> renewed rr \<and> (\<exists>e. message rr = msg_check_failed @ take 50 e))"
        then obtain rr where rr: "r' = Inr rr"
          "need_renew rr \<longleftrightarrow> is_free_label (drv_decimal dr) t"
          "\<forall>l. \<not> label_read es' l"
          "\<not> need_renew rr \<longrightarrow> \<not> list_ex is_click es'"
          "renewed rr \<longleftrightarrow> confirmation_settled es'"
          "confirmation_settled es' \<longrightarrow> confirmation_clicked es'"
          "renewed rr \<longrightarrow> message rr = msg_renew_ok"
          "need_renew rr \<and> \<not> renewed rr \<and> \<not> handler_ran es' \<longrightarrow> message rr = msg_no_confirm"
          "handler_ran es' \<longrightarrow> \<not> renewed rr \<and> (\<exists>e. message rr = msg_check_failed @ take 50 e)"
          by blast
        have lab: "(\<exists>l. label_read (es @ es') l \<and> l \<noteq> [] \<and> is_free_label (drv_decimal dr) l) \<longleftrightarrow>
            is_free_label (drv_decimal dr) t"
          using l rr(3) False by simp
        show "renew_post (drv_decimal dr) r' (es @ es')"
          unfolding renew_post_def
          apply (rule exI [of _ rr])
          apply (simp only: lab)
          using rr q apply simp
          done
      qed
      then show ?thesis
        using Some st False by (simp add: on_renew_button_def)
    qed
  qed
qed

lemma stage_rule:
  assumes nr: "\<not> need_renew r1" "\<not> renewed r1"
    and neq: "\<And>t l. p @ t \<noteq> renew_found @ l"
    and K: "\<And>x w'. wp (K x) (\<lambda>r w' es. renew_post dec r es) w'"
  shows "wp (try_step (first_match dr p sels) (renew_failed r1) K)
           (\<lambda>r w' es. renew_post dec r es) w"
proof (subst wp_try_step, rule first_match_rule)
  fix r w' es
  assume fm: "fm_post p r es"
  then have q: "quiet_events es" by (rule fm_quiet) (rule neq)
  show "case r of
          Inl e \<Rightarrow> wp (renew_failed r1 e) (\<lambda>r' w'' es'. renew_post dec r' (es @ es')) w'
        | Inr x \<Rightarrow> wp (K x) (\<lambda>r' w'' es'. renew_post dec r' (es @ es')) w'"
  proof (cases r)
    case (Inl e)
    then show ?thesis
      by (simp add: renew_post_prefix_mono [OF q renew_failed_post [OF nr]])
  next
    case (Inr x)
    then show ?thesis
      by (simp add: renew_post_prefix_mono [OF q K])
  qed
qed

lemma stage_renew:
  assumes nr: "\<not> need_renew r2" "\<not> renewed r2"
  shows "wp (try_step (first_match dr renew_found renew_selectors) (renew_failed r2)
               (on_renew_button dr r2))
           (\<lambda>r w' es. renew_post (drv_decimal dr) r es) w"
proof (subst wp_try_step, rule first_match_rule)
  fix r w' es
  assume fm: "fm_post renew_found r es"
  show "case r of
          Inl e \<Rightarrow> wp (renew_failed r2 e)
                     (\<lambda>r' w'' es'. renew_post (drv_decimal dr) r' (es @ es')) w'
        | Inr x \<Rightarrow> wp (on_renew_button dr r2 x)
                     (\<lambda>r' w'' es'. renew_post (drv_decimal dr) r' (es @ es')) w'"
  proof (cases r)
    case (Inl e)
    with fm have "quiet_events es"
      by (auto simp: fm_post_def quiet_events_def label_read_def handler_ran_def)
    then show ?thesis
      using Inl by (simp add: renew_post_prefix_mono [OF _ renew_failed_post [OF nr]])
  next
    case (Inr x)
    then show ?thesis
      using fm by (simp add: on_renew_button_post [OF nr])
  qed
qed

lemma check_and_renew_post:
  "wp (check_and_renew dr) (\<lambda>r w' es. renew_post (drv_decimal dr) r es) w"
proof -
  have e0: "\<not> need_renew empty_result" "\<not> renewed empty_result"
    by (simp_all add: empty_result_def)
  have e1: "\<not> need_renew (empty_result\<lparr>balance := b\<rparr>)" "\<not> renewed (empty_result\<lparr>balance := b\<rparr>)"
    for b by (simp_all add: empty_result_def)
  have e2: "\<not> need_renew (empty_result\<lparr>balance := b, expiration := x\<rparr>)"
    "\<not> renewed (empty_result\<lparr>balance := b, expiration := x\<rparr>)"
    for b x by (simp_all add: empty_result_def)
  have q: "quiet_events [Call (WaitForTimeout 2000) ok]" for ok
    by (simp add: quiet_events_def confirmation_clicked_def)
  have rest: "wp (try_step (first_match dr balance_found balance_selectors) (renew_failed empty_result) (\<lambda>b.
     try_step (first_match dr expiration_found expiration_selectors)
       (renew_failed (empty_result\<lparr>balance := found_text b\<rparr>)) (\<lambda>x.
     try_step (first_match dr renew_found renew_selectors)
       (renew_failed (empty_result\<lparr>balance := found_text b, expiration := found_text x\<rparr>))
       (on_renew_button dr
          (empty_result\<lparr>balance := found_text b, expiration := found_text x\<rparr>)))))
       (\<lambda>r w' es. renew_post (drv_decimal dr) r es) w'" for w'
    by (intro stage_rule stage_renew e0 e1 e2 found_neq)
  show ?thesis
    unfolding check_and_renew_def
    apply (subst wp_try_step)
    apply (simp only: wait_for_timeout_def wp_perform sum.case)
    apply (intro allI conjI impI)
     apply (rule renew_post_prefix_mono [OF q])
     apply (rule renew_failed_post [OF e0])
    apply (rule renew_post_prefix_mono [OF q])
    apply (rule rest)
    done
qed

lemma startswith_iff: "startswith s p \<longleftrightarrow> (\<exists>suf. s = p @ suf)"
  by (metis append_eq_conv_conj append_take_drop_id startswith_def)

lemma contains_iff: "contains sub s \<longleftrightarrow> (\<exists>pre suf. s = pre @ sub @ suf)"
proof (induction s)
  case Nil
  then show ?case by auto
next
  case (Cons c cs)
  show ?case
  proof
    assume "contains sub (c # cs)"
    then consider "startswith (c # cs) sub" | "contains sub cs" by auto
    then show "\<exists>pre suf. c # cs = pre @ sub @ suf"
    proof cases
      case 1
      then obtain suf where "c # cs = sub @ suf" by (auto simp: startswith_iff)
      then have "c # cs = [] @ sub @ suf" by simp
      then show ?thesis by blast
    next
      case 2
      with Cons obtain pre suf where "cs = pre @ sub @ suf" by auto
      then have "c # cs = (c # pre) @ sub @ suf" by simp
      then show ?thesis by blast
    qed
  next
    assume "\<exists>pre suf. c # cs = pre @ sub @ suf"
    then obtain pre suf where e: "c # cs = pre @ sub @ suf" by auto
    show "contains sub (c # cs)"
    proof (cases pre)
      case Nil
      with e have "startswith (c # cs) sub" by (simp add: startswith_iff)
      then show ?thesis by simp
    next
      case (Cons p ps)
      with e have "cs = ps @ sub @ suf" by simp
      with Cons.IH show ?thesis by auto
    qed
  qed
qed

lemma contains_single: "contains [c] s \<longleftrightarrow> c \<in> set s"
  by (induction s) (auto simp: startswith_def)

lemma split_acc_nonempty: "split_acc sep acc s \<noteq> []"
  by (induction sep acc s rule: split_acc.induct) (subst split_acc.simps, simp)

lemma split_acc_no_sep: "c \<notin> set s \<Longrightarrow> split_acc [c] acc s = [rev acc @ s]"
proof (induction s arbitrary: acc)
  case Nil
  then show ?case by (subst split_acc.simps) simp
next
  case (Cons x xs)
  then show ?case by (subst split_acc.simps) (simp add: startswith_def)
qed

lemma last_split_acc:
  "last (split_acc [c] acc (pre @ c # seg)) = last (split_acc [c] [] seg)"
proof (induction pre arbitrary: acc)
  case Nil
  show ?case by (subst split_acc.simps) (simp add: startswith_def split_acc_nonempty)
next
  case (Cons x xs)
  show ?case
    by (subst split_acc.simps) (simp add: startswith_def split_acc_nonempty Cons)
qed

lemma dash: "lit ''-'' = [45]"
  by (simp add: lit_def)

lemma trailing_segment_split:
  "trailing_segment l seg \<Longrightarrow> last (split l (lit ''-'')) = seg"
  by (auto simp: trailing_segment_def split_def dash last_split_acc split_acc_no_sep)

lemma trailing_segment_ex: "45 \<in> set l \<Longrightarrow> \<exists>seg. trailing_segment l seg"
proof -
  assume "45 \<in> set l"
  then have "45 \<in> set (rev l)" by simp
  then obtain ys zs where "rev l = ys @ 45 # zs" and "45 \<notin> set ys"
    using split_list_first [of 45 "rev l"] by blast
  then have "rev (rev l) = rev (ys @ 45 # zs)" and "45 \<notin> set (rev ys)"
    by simp_all
  then have "l = rev zs @ [45] @ rev ys" and "45 \<notin> set (rev ys)"
    by simp_all
  then show ?thesis unfolding trailing_segment_def by blast
qed

lemma trailing_segment_dash: "trailing_segment l seg \<Longrightarrow> 45 \<in> set l"
  by (auto simp: trailing_segment_def)

lemma trailing_segment_unique:
  "trailing_segment l seg \<Longrightarrow> trailing_segment l seg' \<Longrightarrow> seg = seg'"
  using trailing_segment_split by metis

lemma first_number_Nil: "first_number dec [] = None"
  by (simp add: first_number_def)

lemma price_part_segment: "trailing_segment l seg \<Longrightarrow> price_part l = strip seg"
  using trailing_segment_split [of l seg]
  by (simp add: price_part_def dash contains_single trailing_segment_dash)

lemma is_free_label_spec: "is_free_label dec l \<longleftrightarrow> free_spec dec l"
proof (cases "has_zero_token l")
  case True
  then show ?thesis
    by (simp add: is_free_label_def free_spec_def has_zero_token_def contains_iff)
next
  case nz: False
  then have c: "\<not> contains (lit ''0.00'') l"
    by (simp add: has_zero_token_def contains_iff)
  show ?thesis
  proof (cases "45 \<in> set l")
    case False
    then have "price_part l = []" by (simp add: price_part_def dash contains_single)
    moreover from False have "\<not> price_is_zero dec l"
      by (auto simp: price_is_zero_def dest: trailing_segment_dash)
    ultimately show ?thesis using c nz by (simp add: is_free_label_def free_spec_def)
  next
    case True
    then obtain seg where seg: "trailing_segment l seg" using trailing_segment_ex by blast
    then have p: "price_part l = strip seg" by (rule price_part_segment)
    have "price_is_zero dec l \<longleftrightarrow>
        (\<exists>ip fp. first_number dec (strip seg) = Some (ip, fp) \<and> float_is_zero ip fp)"
      unfolding price_is_zero_def using seg trailing_segment_unique by blast
    then show ?thesis
      using c nz p
      by (cases "first_number dec (strip seg)")
         (auto simp: is_free_label_def free_spec_def first_number_Nil)
  qed
qed

lemma parse_failure_not_free:
  assumes "\<not> has_zero_token l"
    and "45 \<notin> set l \<or> (\<exists>seg. trailing_segment l seg \<and> first_number dec (strip seg) = None)"
  shows "\<not> is_free_label dec l"
proof -
  from assms(2) have "\<not> price_is_zero dec l"
    unfolding price_is_zero_def
    by (metis option.distinct(1) trailing_segment_dash trailing_segment_unique)
  with assms(1) show ?thesis by (simp add: is_free_label_spec free_spec_def)
qed

lemmas io_defs = bind_def try_step_def ret_def log_def emit_def perform_def is_ok_def

lemma strip_free: "strip free_label = free_label"
  by (simp add: free_label_def strip_def lit_def is_space_def)

lemma strip_paid: "strip paid_label = paid_label"
  by (simp add: paid_label_def strip_def lit_def is_space_def)

lemma free_is_free: "is_free_label dec free_label"
  by (simp add: is_free_label_def free_label_def lit_def startswith_def)

lemma paid_price: "price_part paid_label = lit ''4.99 USD''"
  by (simp add: paid_label_def price_part_def lit_def startswith_def split_def split_acc.simps
      strip_def is_space_def)

lemma paid_not_free: "\<not> is_free_label ascii_decimal paid_label"
proof -
  have "\<not> contains (lit ''0.00'') paid_label"
    by (simp add: paid_label_def lit_def startswith_def)
  moreover have "first_number ascii_decimal (lit ''4.99 USD'') = Some ([4], [9, 9])"
    by (simp add: first_number_def lit_def ascii_decimal_def)
  ultimately show ?thesis
    by (simp add: is_free_label_def paid_price float_is_zero_def digits_value_def)
qed

lemma first_match_example:
  "first_match (renewal_page l) p (s # sels) w =
     (Inr (Some (s, strip l)), w,
      [Call (Count (Locator s)) True, Call (InnerText (First s)) True, Log INFO (p @ strip l)])"
  by (simp add: renewal_page_def call_defs io_defs)

lemma first_match_flaky:
  "first_match flaky_settle_page p (s # sels) w =
     (Inr (Some (s, free_label)), w,
      [Call (Count (Locator s)) True, Call (InnerText (First s)) True, Log INFO (p @ free_label)])"
  by (simp add: flaky_settle_page_def renewal_page_def call_defs io_defs strip_free)

lemma sels: "balance_selectors = hd balance_selectors # tl balance_selectors"
  "expiration_selectors = hd expiration_selectors # tl expiration_selectors"
  "renew_selectors = hd renew_selectors # tl renew_selectors"
  by (simp_all add: balance_selectors_def expiration_selectors_def renew_selectors_def)

lemma paid_label_nonempty: "paid_label \<noteq> []" "free_label \<noteq> []"
  by (simp_all add: paid_label_def free_label_def lit_def)

lemma wait_example: "wait_for_timeout (renewal_page l) ms w = (Inr (), w, [Call (WaitForTimeout ms) True])"
  by (simp add: renewal_page_def quiet_def call_defs io_defs)

lemma paid_run:
  "check_and_renew (renewal_page paid_label) 0 =
     (Inr (empty_result\<lparr>balance := paid_label, expiration := paid_label,
             price := lit ''4.99 USD'', message := msg_paid @ lit ''4.99 USD''\<rparr>), 0,
      [Call (WaitForTimeout 2000) True,
       Call (Count (Locator (hd balance_selectors))) True,
       Call (InnerText (First (hd balance_selectors))) True,
       Log INFO (balance_found @ paid_label),
       Call (Count (Locator (hd expiration_selectors))) True,
       Call (InnerText (First (hd expiration_selectors))) True,
       Log INFO (expiration_found @ paid_label),
       Call (Count (Locator (hd renew_selectors))) True,
       Call (InnerText (First (hd renew_selectors))) True,
       Log INFO (renew_found @ paid_label),
       Log INFO ([0x1F4B5] @ lit '' '' @ [0x7EED, 0x7EA6, 0x4EF7, 0x683C] @ lit '': '' @ lit ''4.99 USD''),
       Log INFO ([0x1F4B5] @ lit '' '' @ [0x7EED, 0x7EA6, 0x9700, 0x8981, 0x4ED8, 0x8D39] @
                        lit '': '' @ lit ''4.99 USD'' @ [0xFF0C, 0x8DF3, 0x8FC7])])"
proof -
  have d: "drv_decimal (renewal_page paid_label) = ascii_decimal"
    by (simp add: renewal_page_def quiet_def)
  have c: "contains (lit ''-'') paid_label"
    by (simp add: paid_label_def lit_def startswith_def)
  show ?thesis
    apply (simp only: check_and_renew_def)
    apply (subst sels(1), subst sels(2), subst sels(3))
    apply (simp add: try_step_def wait_example first_match_example strip_paid found_text_def
        on_renew_button_def paid_label_nonempty renew_decide_def d paid_not_free c paid_price
        bind_def ret_def log_def emit_def del: first_match.simps)
    done
qed

lemma free_price: "price_part free_label = lit ''0.00 USD''"
  by (simp add: free_label_def price_part_def lit_def startswith_def split_def split_acc.simps
      strip_def is_space_def)

lemma free_dash: "contains (lit ''-'') free_label"
  by (simp add: free_label_def lit_def startswith_def)

lemma csels: "confirm_selectors = hd confirm_selectors # tl confirm_selectors"
  "hd confirm_selectors \<in> set confirm_selectors"
  by (simp_all add: confirm_selectors_def)

lemma confirm_example:
  "confirm_loop (renewal_page l) (s # sels) w =
     (Inr True, w,
      [Call (Count (Locator s)) True, Call (IsVisible (First s)) True,
       Log INFO ([0x1F4DD] @ lit '' '' @
                     [0x627E, 0x5230, 0x786E, 0x8BA4, 0x6309, 0x94AE, 0xFF0C, 0x70B9, 0x51FB] @
                     lit '' '' @ [0x27] @ lit ''Yes, Renew Server'' @ [0x27] @ lit ''...''),
       Call (Click (First s)) True, Call (WaitForTimeout 3000) True])"
  by (simp add: confirm_attempt_def renewal_page_def quiet_def call_defs io_defs)

lemma click_example: "click (renewal_page l) loc w = (Inr (), w, [Call (Click loc) True])"
  by (simp add: renewal_page_def quiet_def call_defs io_defs)

lemma free_run:
  "\<exists>es. check_and_renew (renewal_page free_label) 0 =
      (Inr (empty_result\<lparr>balance := free_label, expiration := free_label,
              price := lit ''0.00 USD'', need_renew := True, renewed := True,
              message := msg_renew_ok\<rparr>), 0, es) \<and>
     confirmation_clicked es \<and> confirmation_settled es \<and> \<not> handler_ran es"
  apply (simp only: check_and_renew_def)
  apply (subst sels(1), subst sels(2), subst sels(3))
  apply (simp add: try_step_def wait_example first_match_example strip_free found_text_def
      on_renew_button_def paid_label_nonempty renew_decide_def free_is_free free_dash free_price
      renew_free_def click_example Let_def confirm_example [of _ "hd confirm_selectors" "tl confirm_selectors", folded csels(1)]
      bind_def ret_def log_def emit_def del: first_match.simps confirm_loop.simps)
  using csels(2) apply (auto simp: confirmation_clicked_def)
  done

lemma confirm_flaky:
  "confirm_loop flaky_settle_page sels w = (Inr False, w, concat (map attempt_events sels))"
  by (induction sels)
     (simp_all add: confirm_attempt_def flaky_settle_page_def renewal_page_def quiet_def
        call_defs io_defs attempt_events_def)

lemma flaky_basic:
  "wait_for_timeout flaky_settle_page 2000 w = (Inr (), w, [Call (WaitForTimeout 2000) True])"
  "click flaky_settle_page loc w = (Inr (), w, [Call (Click loc) True])"
  "drv_decimal flaky_settle_page = ascii_decimal"
  by (simp_all add: flaky_settle_page_def renewal_page_def quiet_def call_defs io_defs)

lemma flaky_events:
  "confirmation_clicked (es @ concat (map attempt_events confirm_selectors) @ es')"
  "\<not> confirmation_settled (concat (map attempt_events sels))"
  "\<not> handler_ran (concat (map attempt_events sels))"
proof -
  have "Call (Click (First (hd confirm_selectors))) True \<in>
      set (concat (map attempt_events confirm_selectors))"
    by (simp add: confirm_selectors_def attempt_events_def)
  with csels(2) show "confirmation_clicked (es @ concat (map attempt_events confirm_selectors) @ es')"
    unfolding confirmation_clicked_def by auto
  show "\<not> confirmation_settled (concat (map attempt_events sels))"
    by (induction sels) (simp_all add: attempt_events_def)
  show "\<not> handler_ran (concat (map attempt_events sels))"
    by (induction sels) (simp_all add: attempt_events_def)
qed

lemma flaky_run:
  "\<exists>es. check_and_renew flaky_settle_page 0 =
      (Inr (empty_result\<lparr>balance := free_label, expiration := free_label,
              price := lit ''0.00 USD'', need_renew := True, message := msg_no_confirm\<rparr>), 0, es) \<and>
     confirmation_clicked es \<and> \<not> confirmation_settled es \<and> \<not> handler_ran es"
  apply (simp only: check_and_renew_def)
  apply (subst sels(1), subst sels(2), subst sels(3))
  apply (simp add: try_step_def flaky_basic first_match_flaky found_text_def
      on_renew_button_def paid_label_nonempty renew_decide_def free_is_free free_dash free_price
      renew_free_def Let_def confirm_flaky
      bind_def ret_def log_def emit_def del: first_match.simps confirm_loop.simps)
  apply (simp add: flaky_events(2,3))
  apply (simp add: confirmation_clicked_def)
  apply (rule bexI [OF _ csels(2)])
  apply (rule disjI2)
  apply (rule bexI [OF _ csels(2)])
  apply (simp add: attempt_events_def)
  done

lemma broken_run:
  "check_and_renew broken_page 0 =
     (Inr (empty_result\<lparr>message := msg_check_failed @ lit ''Target closed''\<rparr>), 0,
      [Call (WaitForTimeout 2000) False,
       Log ERROR ([0x7EED, 0x7EA6, 0x68C0, 0x67E5, 0x5931, 0x8D25] @ lit '': '' @ lit ''Target closed'')])"
  by (simp add: check_and_renew_def broken_page_def quiet_def call_defs io_defs renew_failed_def lit_def)

section \<open>Notification\<close>

lemma send_text_only_returns:
  "wp (send_text_only dr tok chat t) (\<lambda>r w' es. r = Inr ()) w"
  by (simp add: send_text_only_def http_post_def split: sum.splits)

lemma notify_telegram_returns:
  "wp (notify_telegram dr ok stage msg sf) (\<lambda>r w' es. r = Inr ()) w"
  by (auto simp: notify_telegram_def http_post_def Let_def split: sum.splits option.splits
           intro!: wp_mono [OF send_text_only_returns])

text \<open>
  C9. \<open>notify_telegram\<close> never raises. But when the token and the chat are configured,
  the screenshot file is given and exists, and the request that sends it raises, the
  failure is logged and nothing else is sent: the run of \<open>notify_telegram\<close> consists of
  the failed photo request and the warning, with no text-only request.
\<close>

theorem notify_telegram_photo_failure:
  "result (notify_telegram dr ok stage msg sf w) = Inr () \<and>
   (env_or_default dr (lit ''TG_BOT_TOKEN'') [] \<noteq> [] \<and>
    env_or_default dr (lit ''TG_CHAT_ID'') [] \<noteq> [] \<and>
    sf = Some f \<and> f \<noteq> [] \<and> drv_exists dr f w \<and>
    drv_http_post dr
      (telegram_api @ env_or_default dr (lit ''TG_BOT_TOKEN'') [] @ lit ''/sendPhoto'')
      [(lit ''chat_id'', env_or_default dr (lit ''TG_CHAT_ID'') []),
       (lit ''caption'', caption_of ok stage msg (drv_now dr w))] (Some f) w = (Inl e, w')
    \<longrightarrow>
    events (notify_telegram dr ok stage msg sf w) =
      [Call (HttpPost
               (telegram_api @ env_or_default dr (lit ''TG_BOT_TOKEN'') [] @ lit ''/sendPhoto'')
               [(lit ''chat_id'', env_or_default dr (lit ''TG_CHAT_ID'') []),
                (lit ''caption'', caption_of ok stage msg (drv_now dr w))] (Some f)) False,
       Log WARN (lit ''Telegram '' @ [0x901A, 0x77E5, 0x5931, 0x8D25] @ lit '': '' @ str_exn e)] \<and>
    \<not> list_ex is_text_send (events (notify_telegram dr ok stage msg sf w)))"
proof -
  have a: "result (notify_telegram dr ok stage msg sf w) = Inr ()"
    using notify_telegram_returns [of dr ok stage msg sf w]
    by (simp add: wp_def result_def split: prod.splits)
  have b: "wp (notify_telegram dr ok stage msg (Some f))
             (\<lambda>r w' es. es =
                [Call (HttpPost
                  (telegram_api @ env_or_default dr (lit ''TG_BOT_TOKEN'') [] @ lit ''/sendPhoto'')
                  [(lit ''chat_id'', env_or_default dr (lit ''TG_CHAT_ID'') []),
                   (lit ''caption'', caption_of ok stage msg (drv_now dr w))] (Some f)) False,
                 Log WARN (lit ''Telegram '' @ [0x901A, 0x77E5, 0x5931, 0x8D25] @ lit '': '' @
                           str_exn e)]) w"
    if "env_or_default dr (lit ''TG_BOT_TOKEN'') [] \<noteq> []"
       "env_or_default dr (lit ''TG_CHAT_ID'') [] \<noteq> []" "f \<noteq> []" "drv_exists dr f w"
       "drv_http_post dr
          (telegram_api @ env_or_default dr (lit ''TG_BOT_TOKEN'') [] @ lit ''/sendPhoto'')
          [(lit ''chat_id'', env_or_default dr (lit ''TG_CHAT_ID'') []),
           (lit ''caption'', caption_of ok stage msg (drv_now dr w))] (Some f) w = (Inl e, w')"
    using that by (simp add: notify_telegram_def http_post_def Let_def)
  show ?thesis
    using a b
    by (auto simp: wp_def events_def is_text_send_def split: prod.splits)
qed

lemma photo_down_env:
  "env_or_default photo_down (lit ''TG_BOT_TOKEN'') [] = lit ''t''"
  "env_or_default photo_down (lit ''TG_CHAT_ID'') [] = lit ''7''"
  by (simp_all add: env_or_default_def photo_down_def lit_def)

lemma photo_down_post:
  "drv_http_post photo_down url form (Some f) w = (Inl (Exception (lit ''connection reset'')), Suc w)"
  "drv_exists photo_down f w" "drv_now photo_down w = []"
  by (simp_all add: photo_down_def quiet_def)

theorem notify_telegram_photo_failure_witness:
  "result (notify_telegram photo_down True (lit ''done'') [] (Some (lit ''shot.png'')) 0) = Inr () \<and>
   events (notify_telegram photo_down True (lit ''done'') [] (Some (lit ''shot.png'')) 0) =
     [Call (HttpPost (telegram_api @ lit ''t'' @ lit ''/sendPhoto'')
              [(lit ''chat_id'', lit ''7''),
               (lit ''caption'', caption_of True (lit ''done'') [] [])]
              (Some (lit ''shot.png''))) False,
      Log WARN (lit ''Telegram '' @ [0x901A, 0x77E5, 0x5931, 0x8D25] @ lit '': '' @
                lit ''connection reset'')] \<and>
   \<not> list_ex is_text_send
       (events (notify_telegram photo_down True (lit ''done'') [] (Some (lit ''shot.png'')) 0))"
  using notify_telegram_photo_failure
          [of photo_down True "lit ''done''" "[]" "Some (lit ''shot.png'')" 0 "lit ''shot.png''"
              "Exception (lit ''connection reset'')" "Suc 0"]
  unfolding photo_down_env photo_down_post(1,3)
  by (simp add: lit_def photo_down_post(2) is_text_send_def)

section \<open>Events of a run\<close>

lemma emits_ret [intro!, simp]: "emits P (ret x)"
  by (simp add: emits_def ret_def events_def)

lemma emits_raise [intro!, simp]: "emits P (raise e)"
  by (simp add: emits_def raise_def events_def)

lemma emits_observe [intro!, simp]: "emits P (observe f)"
  by (simp add: emits_def observe_def events_def)

lemma emits_log [simp]: "emits P (log l m) = P (Log l m)"
  by (simp add: emits_def log_def emit_def events_def)

lemma emits_perform [intro!]: "P (Call c True) \<Longrightarrow> P (Call c False) \<Longrightarrow> emits P (perform c op)"
  by (simp add: emits_def perform_def events_def is_ok_def split: prod.splits sum.splits)

lemma emits_bind [intro!]: "emits P m \<Longrightarrow> (\<And>x. emits P (f x)) \<Longrightarrow> emits P (bind m f)"
  by (simp add: emits_def bind_def events_def split: prod.splits sum.splits)
     (metis list_all_append snd_conv)

lemma emits_try_step [intro!]:
  "emits P m \<Longrightarrow> (\<And>e. emits P (h e)) \<Longrightarrow> (\<And>x. emits P (k x)) \<Longrightarrow> emits P (try_step m h k)"
  by (simp add: emits_def try_step_def events_def split: prod.splits sum.splits)
     (metis list_all_append snd_conv)

lemma emits_catch [intro!]: "emits P m \<Longrightarrow> (\<And>e. emits P (h e)) \<Longrightarrow> emits P (catch m h)"
  by (simp add: catch_def emits_try_step)

lemma emits_try_finally [intro!]: "emits P m \<Longrightarrow> emits P f \<Longrightarrow> emits P (try_finally m f)"
  by (simp add: emits_def try_finally_def events_def split: prod.splits sum.splits)
     (metis list_all_append snd_conv)

lemma emits_if [intro!]: "(b \<Longrightarrow> emits P m) \<Longrightarrow> (\<not> b \<Longrightarrow> emits P n) \<Longrightarrow> emits P (if b then m else n)"
  by simp

lemma emits_let [intro!]: "emits P (f v) \<Longrightarrow> emits P (let x = v in f x)"
  by simp

lemma log_all_run: "log_all l ms w = (Inr (), w, map (Log l) ms)"
  using wp_log_all [of l ms "\<lambda>r w' es. (r, w', es) = (Inr (), w, map (Log l) ms)" w]
  by (simp add: wp_def split: prod.splits)

lemma emits_log_all [simp]: "emits P (log_all l ms) = list_all (\<lambda>m. P (Log l m)) ms"
  by (simp add: emits_def log_all_run events_def list_all_iff)

lemma emits_mono: "emits P m \<Longrightarrow> (\<And>ev. P ev \<Longrightarrow> Q ev) \<Longrightarrow> emits Q m"
  by (auto simp: emits_def list_all_iff)

lemma emits_wp: "emits P m \<Longrightarrow> (\<And>r w' es. list_all P es \<Longrightarrow> Q r w' es) \<Longrightarrow> wp m Q w"
  by (auto simp: emits_def wp_def events_def split: prod.splits) (metis snd_conv)

lemma plain_Call [simp]:
  "plain (Call c b) = (c \<noteq> Goto BASE_URL \<and> c \<noteq> ContextClose \<and> c \<noteq> BrowserClose)"
  by (auto simp: plain_def is_initial_navigation_def is_close_def)

lemma plain_Log [simp]: "plain (Log l m) = (l \<noteq> INFO \<or> m \<noteq> msg_done)"
  by (auto simp: plain_def is_initial_navigation_def is_close_def)

lemma lit_Nil [simp]: "lit [] = []"
  by (simp add: lit_def)

lemma lit_Cons [simp]: "lit (c # s) = of_char c # lit s"
  by (simp add: lit_def)

lemma done_Cons [simp]: "(c # m = msg_done) = (c = 0x1F4CA \<and> m = tl msg_done)"
  by (auto simp: msg_done_def)

lemma done_Nil [simp]: "[] \<noteq> msg_done"
  by (simp add: msg_done_def)

lemma done_separator [simp]: "separator n \<noteq> msg_done"
proof
  assume "separator n = msg_done"
  then have "0x1F4CA \<in> set (separator n)"
    by (simp add: msg_done_def)
  then show False
    by (simp add: separator_def)
qed

lemma levels_more [simp]: "DEBUG \<noteq> INFO" "lit ''TRACEBACK'' \<noteq> INFO"
  by (simp_all add: INFO_def DEBUG_def)

lemma plain_check_stop_btn: "emits plain (check_stop_btn dr)"
  unfolding check_stop_btn_def call_defs
  by (auto simp: msg_stopped_stop_def msg_running_def)

lemma plain_check_need_restart: "emits plain (check_need_restart dr)"
  unfolding check_need_restart_def call_defs
  by (auto simp: msg_stopped_start_def plain_check_stop_btn)

lemma plain_do_restart: "emits plain (do_restart dr)"
  unfolding do_restart_def call_defs
  by auto

lemma plain_first_match:
  "found \<noteq> [] \<Longrightarrow> hd found \<noteq> 0x1F4CA \<Longrightarrow> emits plain (first_match dr found sels)"
  by (induction sels) (auto simp: call_defs neq_Nil_conv)

lemma plain_confirm_attempt: "emits plain (confirm_attempt dr s)"
  unfolding confirm_attempt_def call_defs
  by auto

lemma plain_confirm_loop: "emits plain (confirm_loop dr sels)"
  by (induction sels) (auto simp: plain_confirm_attempt)

lemma plain_renew_failed: "emits plain (renew_failed r e)"
  unfolding renew_failed_def
  by auto

lemma plain_renew_free: "emits plain (renew_free dr r s)"
  unfolding renew_free_def call_defs
  by (auto simp: plain_renew_failed plain_confirm_loop)

lemma plain_renew_decide: "emits plain (renew_decide dr r s t)"
  unfolding renew_decide_def
  by (auto simp: plain_renew_free Let_def)

lemma plain_renew_not_found: "emits plain (renew_not_found r)"
  unfolding renew_not_found_def
  by auto

lemma plain_on_renew_button: "emits plain (on_renew_button dr r btn)"
  unfolding on_renew_button_def
  by (auto simp: plain_renew_not_found plain_renew_decide split: option.splits)

lemma plain_check_and_renew: "emits plain (check_and_renew dr)"
  unfolding check_and_renew_def wait_for_timeout_def
  by (auto simp: plain_renew_failed plain_on_renew_button balance_found_def
        expiration_found_def renew_found_def intro!: plain_first_match)

lemma plain_save_cookies_for_update: "emits plain (save_cookies_for_update dr cookies)"
  unfolding save_cookies_for_update_def
  by (auto simp: Let_def list_all_iff split: sum.splits)

lemma plain_update_github_secret: "emits plain (update_github_secret dr n v)"
  unfolding update_github_secret_def
  by (auto simp: Let_def split: exn.splits)

lemma plain_rotate_cookies: "emits plain (rotate_cookies dr)"
  unfolding rotate_cookies_def
  by (auto simp: plain_save_cookies_for_update plain_update_github_secret)

lemma plain_send_text_only: "emits plain (send_text_only dr tok chat t)"
  unfolding send_text_only_def http_post_def
  by auto

lemma plain_notify_telegram: "emits plain (notify_telegram dr ok stage msg sf)"
  unfolding notify_telegram_def http_post_def
  by (auto simp: Let_def plain_send_text_only)

lemma plain_discover: "emits plain (discover dr)"
  unfolding discover_def
  by (auto simp: list_all_iff discovery_line_def split: option.splits)

lemma plain_server_failed: "emits plain (server_failed name e)"
  unfolding server_failed_def
  by (auto split: exn.splits)

lemma plain_fail_with: "emits plain (fail_with fs name e)"
  unfolding fail_with_def
  by (auto simp: plain_server_failed)

lemma base_url_length: "length BASE_URL = 25"
  by (simp add: BASE_URL_def)

lemma server_url_not_base:
  "server_url (server_of e) \<noteq> BASE_URL" "server_url (server_of e) @ lit ''/settings'' \<noteq> BASE_URL"
proof -
  show "server_url (server_of e) \<noteq> BASE_URL"
    by (simp add: server_of_def)
  have "length (server_url (server_of e) @ lit ''/settings'') \<noteq> length BASE_URL"
    by (simp add: server_of_def)
  then show "server_url (server_of e) @ lit ''/settings'' \<noteq> BASE_URL"
    by metis
qed

lemma plain_renew_step:
  assumes "server_url server @ lit ''/settings'' \<noteq> BASE_URL"
  shows "emits plain (renew_step dr idx server fs a b)"
  unfolding renew_step_def call_defs
  using assms
  by (auto simp: plain_fail_with plain_check_and_renew Let_def)

lemma plain_process_server:
  assumes "server_url server \<noteq> BASE_URL" "server_url server @ lit ''/settings'' \<noteq> BASE_URL"
  shows "emits plain (process_server dr n idx server fs)"
  unfolding process_server_def call_defs
  using assms
  by (auto simp: plain_fail_with plain_check_need_restart plain_do_restart plain_renew_step)

lemma plain_server_loop:
  "emits plain (server_loop dr n idx (map server_of entries) fs results)"
  by (induction entries arbitrary: idx fs results)
     (auto simp: call_defs intro!: plain_process_server server_url_not_base)

lemma plain_top_failed: "emits plain (top_failed dr fs e)"
  unfolding top_failed_def call_defs
  by (auto simp: plain_notify_telegram INFO_def)

lemma plain_dismiss_popup: "emits plain (dismiss_popup dr)"
  unfolding dismiss_popup_def call_defs
  by auto

lemma plain_parse_cookie_string: "emits plain (parse_cookie_string s d)"
  unfolding parse_cookie_string_def
  by (auto simp: Let_def list_all_iff)

lemma returns_ret [intro!, simp]: "returns (ret x)"
  by (simp add: returns_def ret_def result_def is_ok_def)

lemma returns_log [intro!, simp]: "returns (log l m)"
  by (simp add: returns_def log_def emit_def result_def is_ok_def)

lemma returns_observe [intro!, simp]: "returns (observe f)"
  by (simp add: returns_def observe_def result_def is_ok_def)

lemma returns_log_all [intro!, simp]: "returns (log_all l ms)"
  by (simp add: returns_def log_all_run result_def is_ok_def)

lemma returns_bind [intro!]: "returns m \<Longrightarrow> (\<And>x. returns (f x)) \<Longrightarrow> returns (bind m f)"
  by (auto simp: returns_def bind_def result_def is_ok_def split: prod.splits sum.splits)
     (metis fst_conv sum.simps(5))+

lemma returns_try_step [intro!]:
  "(\<And>e. returns (h e)) \<Longrightarrow> (\<And>x. returns (k x)) \<Longrightarrow> returns (try_step m h k)"
  by (auto simp: returns_def try_step_def result_def is_ok_def split: prod.splits sum.splits)
     (metis fst_conv sum.simps(5))+

lemma returns_catch [intro!]: "(\<And>e. returns (h e)) \<Longrightarrow> returns (catch m h)"
  by (simp add: catch_def returns_try_step)

lemma returns_if [intro!]:
  "(b \<Longrightarrow> returns m) \<Longrightarrow> (\<not> b \<Longrightarrow> returns n) \<Longrightarrow> returns (if b then m else n)"
  by simp

lemma returns_send_text_only: "returns (send_text_only dr tok chat t)"
  unfolding send_text_only_def
  by auto

lemma returns_notify_telegram: "returns (notify_telegram dr ok stage msg sf)"
  unfolding notify_telegram_def
  by (auto simp: Let_def)

lemma returns_discover: "returns (discover dr)"
  unfolding discover_def
  by (auto split: option.splits)

lemma returns_dismiss_popup: "returns (dismiss_popup dr)"
  unfolding dismiss_popup_def
  by auto

lemma returns_parse_cookie_string: "returns (parse_cookie_string s d)"
  unfolding parse_cookie_string_def
  by (auto simp: Let_def)

lemma run_cases:
  obtains (raised) e w' es where "m w = (Inl e, w', es)"
        | (returned) x w' es where "m w = (Inr x, w', es)"
  by (metis prod_cases3 sum.exhaust)

lemma exits_bind [intro!]:
  assumes "emits plain m" "returns m" "\<And>x. exits Q (f x)"
  shows "exits Q (bind m f)"
  unfolding exits_def
proof (intro allI impI)
  fix w pre
  assume pre: "list_all plain pre"
  show "Q (result (bind m f w)) (pre @ events (bind m f w))"
  proof (cases rule: run_cases [of m w])
    case (raised e w' es)
    have "is_ok (result (m w))"
      using assms(2) by (simp add: returns_def)
    then show ?thesis
      using raised by (simp add: result_def is_ok_def)
  next
    case (returned x w' es)
    have "list_all plain (pre @ es)"
      using assms(1) pre returned by (auto simp: emits_def events_def dest: spec [of _ w])
    then have "Q (result (f x w')) ((pre @ es) @ events (f x w'))"
      using assms(3) unfolding exits_def by blast
    then show ?thesis
      using returned by (auto simp: bind_def result_def events_def split: prod.splits)
  qed
qed

lemma exits_try_step [intro!]:
  assumes "emits plain m" "\<And>e. exits Q (h e)" "\<And>x. exits Q (k x)"
  shows "exits Q (try_step m h k)"
  unfolding exits_def
proof (intro allI impI)
  fix w pre
  assume pre: "list_all plain pre"
  show "Q (result (try_step m h k w)) (pre @ events (try_step m h k w))"
  proof (cases rule: run_cases [of m w])
    case (raised e w' es)
    have "list_all plain (pre @ es)"
      using assms(1) pre raised by (auto simp: emits_def events_def dest: spec [of _ w])
    then have "Q (result (h e w')) ((pre @ es) @ events (h e w'))"
      using assms(2) unfolding exits_def by blast
    then show ?thesis
      using raised by (auto simp: try_step_def result_def events_def split: prod.splits)
  next
    case (returned x w' es)
    have "list_all plain (pre @ es)"
      using assms(1) pre returned by (auto simp: emits_def events_def dest: spec [of _ w])
    then have "Q (result (k x w')) ((pre @ es) @ events (k x w'))"
      using assms(3) unfolding exits_def by blast
    then show ?thesis
      using returned by (auto simp: try_step_def result_def events_def split: prod.splits)
  qed
qed

lemma exits_if [intro!]:
  "(b \<Longrightarrow> exits Q m) \<Longrightarrow> (\<not> b \<Longrightarrow> exits Q n) \<Longrightarrow> exits Q (if b then m else n)"
  by simp

lemma plain_list:
  assumes "list_all plain pre"
  shows "\<not> report_reached pre" "\<not> list_ex is_initial_navigation pre" "\<not> list_ex is_close pre"
    "filter is_initial_navigation pre = []"
  using assms
  by (auto simp: plain_def report_reached_def list_all_iff list_ex_iff filter_empty_conv)

lemma exits_ret_1 [simp]:
  "exits settled (ret 1)" "exits attempted (ret 1)"
  "exits settled (ret (Suc 0))" "exits attempted (ret (Suc 0))"
  by (simp_all add: exits_def settled_def attempted_def outcome_def plain_list ret_def
        result_def events_def)

lemma filter_none: "\<not> list_ex P xs \<Longrightarrow> filter P xs = []"
  by (simp add: list_ex_iff filter_empty_conv)

lemma settled_attempted: "exits settled m \<Longrightarrow> exits attempted m"
proof -
  have "length (filter P xs) \<le> 1" if "\<not> list_ex P xs" for P :: "event \<Rightarrow> bool" and xs
    using that by (simp add: filter_none)
  then show "exits settled m \<Longrightarrow> exits attempted m"
    unfolding exits_def settled_def attempted_def by blast
qed

lemma wp_plain_returns:
  assumes "emits plain m" "returns m" "\<And>x w' es. list_all plain es \<Longrightarrow> Q (Inr x) w' es"
  shows "wp m Q w"
proof (cases rule: run_cases [of m w])
  case (raised e w' es)
  have "is_ok (result (m w))"
    using assms(2) by (simp add: returns_def)
  then show ?thesis
    using raised by (simp add: result_def is_ok_def)
next
  case (returned x w' es)
  have "list_all plain es"
    using assms(1) returned by (auto simp: emits_def events_def dest: spec [of _ w])
  then show ?thesis
    using assms(3) returned by (simp add: wp_def)
qed

lemma exitsI:
  "(\<And>w pre. list_all plain pre \<Longrightarrow> wp m (\<lambda>r w' es. Q r (pre @ es)) w) \<Longrightarrow> exits Q m"
  by (simp add: exits_def wp_def result_def events_def case_prod_beta)

lemma exits_wp:
  "exits Q m \<Longrightarrow> list_all plain pre \<Longrightarrow> (\<And>r w' es. Q r (pre @ es) \<Longrightarrow> Q' r w' es) \<Longrightarrow> wp m Q' w"
  by (simp add: exits_def wp_def result_def events_def case_prod_beta)

section \<open>The exit status of the cookie-injection script\<close>

lemma log_not_call [simp]: "\<not> is_initial_navigation (Log l m)" "\<not> is_close (Log l m)"
  by (simp_all add: is_initial_navigation_def is_close_def)

lemma settled_top_failed: "exits settled (top_failed dr fs e)"
  unfolding top_failed_def call_defs
  by (auto simp: plain_notify_telegram returns_notify_telegram INFO_def)

lemma attempted_top_failed: "exits attempted (top_failed dr fs e)"
  by (rule settled_attempted [OF settled_top_failed])

lemma notify_plain_run:
  assumes "\<And>w' es. list_all plain es \<Longrightarrow> Q (Inr ()) w' es"
  shows "wp (notify_telegram dr ok stage msg sf) Q w"
  by (rule wp_plain_returns [OF plain_notify_telegram returns_notify_telegram]) (simp add: assms)

lemma settled_report: "exits settled (report dr fs results)"
proof (rule exitsI)
  fix w :: 'a and pre
  assume pre: "list_all plain pre"
  show "wp (report dr fs results) (\<lambda>r w' es. settled r (pre @ es)) w"
    unfolding report_def
    apply simp
    apply (rule notify_plain_run)
    using plain_list [OF pre]
    apply (simp add: settled_def outcome_def report_reached_def plain_list)
    done
qed

lemma settled_run_servers:
  "exits settled (run_servers dr (map server_of entries) fs)"
  unfolding run_servers_def
  apply (rule exits_bind)
    apply simp
   apply simp
  apply (rule exits_try_step)
    apply (rule plain_server_loop)
   apply (rule settled_top_failed)
  apply (simp split: sum.splits prod.splits)
  apply (intro conjI allI impI)
   apply (rule settled_top_failed)
  apply (rule exits_try_step)
    apply (rule plain_rotate_cookies)
   apply (rule settled_top_failed)
  apply (rule settled_report)
  done

lemma settled_no_servers:
  "exits settled
     (try_step (perform (Screenshot p) op) (top_failed dr fs)
        (\<lambda>u. bind (log ERROR m) (\<lambda>u. bind (notify_telegram dr ok stage msg sf) (\<lambda>u. ret 1))))"
  by (auto simp: settled_top_failed plain_notify_telegram returns_notify_telegram)

lemma settled_logged_in: "exits settled (logged_in dr (map server_of entries))"
  unfolding logged_in_def call_defs
  apply (rule exits_bind)
    apply simp
   apply simp
  apply (rule exits_try_step)
    apply (rule emits_perform; simp)
   apply (rule settled_top_failed)
  apply (rule exits_bind)
    apply (rule plain_dismiss_popup)
   apply (rule returns_dismiss_popup)
  apply (rule exits_try_step)
    apply (rule emits_perform; simp)
   apply (rule settled_top_failed)
  apply (rule exits_if)
   apply (rule settled_no_servers)
  apply (rule settled_run_servers)
  done

lemma exits_wp_Nil: "exits Q m \<Longrightarrow> (\<And>r w' es. Q r es \<Longrightarrow> Q' r w' es) \<Longrightarrow> wp m Q' w"
  using exits_wp [of Q m "[]" Q' w] by simp

lemma attempted_navigate:
  assumes "\<And>e. exits settled (h e)" "\<And>entries. exits settled (k (map server_of entries))"
  shows "exits attempted (try_step (visit_panel dr) h k)"
proof (rule exitsI)
  fix w :: 'a and pre
  assume pre: "list_all plain pre"
  have *: "attempted r (pre @ ls @ Call (Goto BASE_URL) ok # es)"
    if "settled r es" "list_all plain ls" for r ok es ls
  proof -
    have p: "list_all plain (pre @ ls)"
      using pre that(2) by simp
    have "filter is_initial_navigation ((pre @ ls) @ Call (Goto BASE_URL) ok # es) =
          [Call (Goto BASE_URL) ok]"
      using that(1) plain_list(4) [OF p]
      by (simp add: settled_def filter_none is_initial_navigation_def)
    then show ?thesis
      using that(1) plain_list [OF p]
      by (simp add: settled_def attempted_def outcome_def report_reached_def is_close_def)
  qed
  have k0: "exits settled (k [])"
    using assms(2) [of "[]"] by simp
  have **: "attempted r (pre @ map (Log INFO \<circ> discovery_line) entries @
                         Log INFO m # Call (Goto BASE_URL) ok # es)"
    if "settled r es" "m \<noteq> msg_done" for r ok es entries m
  proof -
    have "list_all plain (map (Log INFO \<circ> discovery_line) entries @ [Log INFO m])"
      using that(2) by (simp add: list_all_iff discovery_line_def)
    from * [OF that(1) this] show ?thesis
      by simp
  qed
  show "wp (try_step (visit_panel dr) h k) (\<lambda>r w' es. attempted r (pre @ es)) w"
    unfolding visit_panel_def discover_def page_goto_def
    apply (simp split: option.splits)
    apply (intro conjI allI impI)
       apply (rule exits_wp_Nil [OF assms(1)])
       apply (rule * [of _ _ "[]", simplified], assumption)
      apply (rule exits_wp_Nil [OF k0])
      apply (rule * [of _ _ "[]", simplified], assumption)
     apply (rule exits_wp_Nil [OF assms(1)])
     apply (rule **, assumption, simp)
    apply (rule exits_wp_Nil [OF assms(2)])
    apply (rule **, assumption, simp)
    done
qed

lemma settled_need_login:
  "exits settled
     (try_step (perform (Screenshot p) op) (top_failed dr fs)
        (\<lambda>u. bind (log ERROR m) (\<lambda>u. bind (notify_telegram dr ok stage msg sf) (\<lambda>u. ret 1))))"
  by (rule settled_no_servers)

lemma attempted_main_try: "exits attempted (main_try dr preset_cookies)"
  unfolding main_try_def
  apply (rule exits_bind)
    apply simp
   apply simp
  apply (rule exits_bind)
    apply (rule plain_parse_cookie_string)
   apply (rule returns_parse_cookie_string)
  apply (rule exits_if)
   apply (auto simp: plain_notify_telegram returns_notify_telegram)[1]
  apply (rule exits_try_step)
    apply (rule emits_perform; simp)
   apply (rule attempted_top_failed)
  apply (rule exits_bind, simp, simp)
  apply (rule exits_bind, simp, simp)
  apply (rule attempted_navigate)
   apply (rule settled_top_failed)
  apply (auto simp: call_defs settled_top_failed plain_notify_telegram returns_notify_telegram
      settled_logged_in)
  done

lemma exits_bind_raising:
  assumes "emits plain m" "\<And>e pre. list_all plain pre \<Longrightarrow> Q (Inl e) pre"
    and "\<And>x. exits Q (f x)"
  shows "exits Q (bind m f)"
  unfolding exits_def
proof (intro allI impI)
  fix w pre
  assume pre: "list_all plain pre"
  show "Q (result (bind m f w)) (pre @ events (bind m f w))"
  proof (cases rule: run_cases [of m w])
    case (raised e w' es)
    have "list_all plain (pre @ es)"
      using assms(1) pre raised by (auto simp: emits_def events_def dest: spec [of _ w])
    then show ?thesis
      using raised assms(2) by (simp add: bind_def result_def events_def)
  next
    case (returned x w' es)
    have "list_all plain (pre @ es)"
      using assms(1) pre returned by (auto simp: emits_def events_def dest: spec [of _ w])
    then have "Q (result (f x w')) ((pre @ es) @ events (f x w'))"
      using assms(3) unfolding exits_def by blast
    then show ?thesis
      using returned by (auto simp: bind_def result_def events_def split: prod.splits)
  qed
qed

lemma finished_raised: "list_all plain pre \<Longrightarrow> finished (Inl e) pre"
  by (simp add: finished_def exit_status_def plain_list)

lemma finished_1: "exits finished (ret 1)" "exits finished (ret (Suc 0))"
  by (simp_all add: exits_def finished_def exit_status_def plain_list ret_def result_def events_def)

lemma teardown_failed_plain:
  "list_all plain pre \<Longrightarrow> \<not> teardown_failed pre"
  by (auto simp: teardown_failed_def list_all_iff plain_def is_close_def)

lemma finished_closing:
  assumes "attempted r xs" "list_all (\<lambda>ev. \<not> is_initial_navigation ev \<and> ev \<noteq> Log INFO msg_done) cl"
    and "exit_status r2 = 0 \<longleftrightarrow> r = Inr 0 \<and> \<not> teardown_failed cl" "exit_status r2 \<le> 1"
  shows "finished r2 (xs @ cl)"
proof -
  have "report_reached (xs @ cl) = report_reached xs"
    using assms(2) by (auto simp: report_reached_def list_all_iff)
  moreover have "teardown_failed (xs @ cl) = teardown_failed cl"
    using assms(1) by (auto simp: attempted_def teardown_failed_def list_ex_iff is_close_def)
  moreover have "filter is_initial_navigation (xs @ cl) = filter is_initial_navigation xs"
    using assms(2) by (simp add: list_all_iff filter_empty_conv)
  moreover have "r = Inr 0 \<longleftrightarrow> report_reached xs"
    using assms(1) by (auto simp: attempted_def outcome_def)
  ultimately show ?thesis
    using assms by (simp add: finished_def attempted_def)
qed

lemma finished_browser: "exits finished (try_finally (main_try dr preset_cookies) (teardown dr))"
proof (rule exitsI)
  fix w :: 'a and pre
  assume pre: "list_all plain pre"
  have a: "finished (Inl e) (pre @ es @ [Call ContextClose False])"
    if "attempted r (pre @ es)" for r e es
    using finished_closing [OF that, of "[Call ContextClose False]" "Inl e"]
    by (simp add: is_initial_navigation_def teardown_failed_def exit_status_def)
  have b: "finished (Inl e) (pre @ es @ [Call ContextClose True, Call BrowserClose False])"
    if "attempted r (pre @ es)" for r e es
    using finished_closing [OF that, of "[Call ContextClose True, Call BrowserClose False]" "Inl e"]
    by (simp add: is_initial_navigation_def teardown_failed_def exit_status_def)
  have c: "finished r (pre @ es @ [Call ContextClose True, Call BrowserClose True, Log INFO m])"
    if "attempted r (pre @ es)" "m \<noteq> msg_done" for r es m
    using finished_closing
            [OF that(1), of "[Call ContextClose True, Call BrowserClose True, Log INFO m]" r] that
    by (auto simp: is_initial_navigation_def teardown_failed_def exit_status_def attempted_def
          outcome_def)
  show "wp (try_finally (main_try dr preset_cookies) (teardown dr))
          (\<lambda>r w' es. finished r (pre @ es)) w"
    unfolding teardown_def
    apply simp
    apply (rule exits_wp [OF attempted_main_try pre])
    apply (auto intro!: a b c)
    done
qed

lemma finished_main: "exits finished (main dr)"
  unfolding main_def
  apply (rule exits_bind, simp, simp)+
  apply (rule exits_bind_raising)
    apply (simp add: ensure_output_dir_def)
    apply (auto)[1]
   apply (erule finished_raised)
  apply (split sum.split)
  apply (intro conjI allI impI)
   apply (rule exits_bind, simp add: ERROR_def INFO_def, simp)
   apply (rule exits_bind, rule plain_notify_telegram, rule returns_notify_telegram)
   apply (rule finished_1)
  apply (rule exits_bind, simp, simp)+
  apply (rule exits_bind_raising)
    apply (rule emits_perform; simp)
   apply (erule finished_raised)
  apply (rule finished_browser)
  done

section \<open>The retry loop and the summary of the interactive-login script\<close>

lemma routine_Call [simp]: "routine (Call c b) = (c \<noteq> Goto LOGIN_URL)"
  by (auto simp: routine_def is_login_navigation_def is_summary_line_def)

lemma routine_Log_Cons [simp]: "routine (Log l (c # m)) = (c \<noteq> 0x1F4CA \<or> \<not> startswith m (tl summary_prefix))"
  by (auto simp: routine_def is_login_navigation_def is_summary_line_def startswith_def
        summary_prefix_def)

lemma routine_Log_Nil [simp]: "routine (Log l [])"
  by (simp add: routine_def is_login_navigation_def is_summary_line_def startswith_def
        summary_prefix_def)

lemma routine_Log_replicate [simp]: "c \<noteq> 0x1F4CA \<Longrightarrow> routine (Log l (replicate n c))"
  by (cases n) simp_all

lemma emits_log_info [simp]: "emits P (log_info m) = P (Log INFO m)"
  by (simp add: log_info_def)

lemmas login_call_defs = wait_for_load_state_def wait_for_selector_def fill_def press_def
  text_content_def keyboard_type_def keyboard_press_def sleep_def ensure_dir_def

lemma terminal_not_login [simp]: "TERMINAL_URL \<noteq> LOGIN_URL"
  by (simp add: TERMINAL_URL_def LOGIN_URL_def)

lemma routine_for_first:
  "(\<And>l. emits routine (act l)) \<Longrightarrow> emits routine (for_first dr sels act)"
  by (induction sels) (auto simp: call_defs)

lemma routine_send_telegram: "emits routine (send_telegram dr t)"
  unfolding send_telegram_def http_post_def
  by (auto simp: Let_def)

lemma routine_account_failed: "emits routine (account_failed dr i d m s e)"
  unfolding account_failed_def call_defs
  by (auto simp: Let_def routine_send_telegram)

lemma routine_logout: "emits routine (logout dr)"
  unfolding logout_def call_defs
  by (auto intro!: routine_for_first)

lemma routine_sign_in: "emits routine (sign_in dr account)"
  unfolding sign_in_def call_defs login_call_defs
  by (auto intro!: routine_for_first)

lemma routine_send_command: "emits routine (send_command dr account i d)"
  unfolding send_command_def call_defs login_call_defs
  by (auto intro!: routine_for_first)

lemma routine_filter: "list_all routine es \<Longrightarrow> filter is_login_navigation es = []"
  by (auto simp: routine_def list_all_iff filter_empty_conv)

lemma shaped_bind_left:
  assumes "shaped S m" "\<And>x. emits routine (f x)"
  shows "shaped S (bind m f)"
  unfolding shaped_def
proof
  fix w
  show "filter is_login_navigation (events (bind m f w)) \<in> S"
  proof (cases rule: run_cases [of m w])
    case (raised e w' es)
    then show ?thesis
      using assms(1) by (auto simp: shaped_def bind_def events_def dest: spec [of _ w])
  next
    case (returned x w' es)
    have "list_all routine (events (f x w'))"
      using assms(2) by (simp add: emits_def)
    then show ?thesis
      using assms(1) returned
      by (auto simp: shaped_def bind_def events_def routine_filter split: prod.splits
            dest: spec [of _ w])
  qed
qed

lemma shaped_try_step_left:
  assumes "shaped S m" "\<And>e. emits routine (h e)" "\<And>x. emits routine (k x)"
  shows "shaped S (try_step m h k)"
  unfolding shaped_def
proof
  fix w
  show "filter is_login_navigation (events (try_step m h k w)) \<in> S"
  proof (cases rule: run_cases [of m w])
    case (raised e w' es)
    have "list_all routine (events (h e w'))"
      using assms(2) by (simp add: emits_def)
    then show ?thesis
      using assms(1) raised
      by (auto simp: shaped_def try_step_def events_def routine_filter split: prod.splits
            dest: spec [of _ w])
  next
    case (returned x w' es)
    have "list_all routine (events (k x w'))"
      using assms(3) by (simp add: emits_def)
    then show ?thesis
      using assms(1) returned
      by (auto simp: shaped_def try_step_def events_def routine_filter split: prod.splits
            dest: spec [of _ w])
  qed
qed

lemma shaped_try_finally:
  assumes "shaped S m" "emits routine f"
  shows "shaped S (try_finally m f)"
  unfolding shaped_def
proof
  fix w
  obtain r w' es where m: "m w = (r, w', es)"
    by (metis prod_cases3)
  have "list_all routine (events (f w'))"
    using assms(2) by (simp add: emits_def)
  then show "filter is_login_navigation (events (try_finally m f w)) \<in> S"
    using assms(1) m
    by (auto simp: shaped_def try_finally_def events_def routine_filter
          split: prod.splits sum.splits dest: spec [of _ w])
qed

lemma shaped_bind_right:
  assumes "emits routine m" "returns m" "\<And>x. shaped S (f x)"
  shows "shaped S (bind m f)"
  unfolding shaped_def
proof
  fix w
  have *: "list_all routine (events (m w))"
    using assms(1) by (simp add: emits_def)
  show "filter is_login_navigation (events (bind m f w)) \<in> S"
  proof (cases rule: run_cases [of m w])
    case (raised e w' es)
    have "is_ok (result (m w))"
      using assms(2) by (simp add: returns_def)
    then show ?thesis
      using raised by (simp add: result_def is_ok_def)
  next
    case (returned x w' es)
    then show ?thesis
      using * assms(3) [of x]
      by (auto simp: shaped_def bind_def events_def routine_filter split: prod.splits
            dest: spec [of _ w'])
  qed
qed

lemma attempts: "[1..<MAX_RETRIES + 1] = [1, 2, 3]"
  by (simp add: MAX_RETRIES_def upt_rec)

lemma connect_run:
  "wp (connect dr [1..<MAX_RETRIES + 1])
     (\<lambda>r w' es. calls es \<in> retry_runs \<and>
        (is_ok r \<longleftrightarrow> last (calls es) = nav_ok) \<and>
        filter is_login_navigation es \<in> login_navigations \<and>
        list_all (\<lambda>ev. \<not> is_summary_line ev) es) w"
  unfolding attempts
  by (auto simp: MAX_RETRIES_def page_goto_def sleep_def log_info_def calls_def is_call_def
        retry_runs_def login_navigations_def nav_ok_def nav_failed_def pause_def is_ok_def
        is_login_navigation_def is_summary_line_def startswith_def summary_prefix_def)

lemma returns_log_info [simp]: "returns (log_info m)"
  by (simp add: log_info_def)

lemma shaped_connect: "shaped login_navigations (connect dr [1..<MAX_RETRIES + 1])"
  unfolding shaped_def
proof
  fix w
  show "filter is_login_navigation (events (connect dr [1..<MAX_RETRIES + 1] w))
        \<in> login_navigations"
    using connect_run [of dr w] unfolding attempts
    by (simp add: wp_def events_def del: connect.simps split: prod.splits)
qed

lemma shaped_open_login_page: "shaped login_navigations (open_login_page dr i u)"
  unfolding open_login_page_def
  by (intro shaped_bind_right shaped_connect) simp_all

lemma shaped_run_command: "shaped login_navigations (run_command dr a i d u)"
  unfolding run_command_def
  by (intro shaped_bind_left shaped_open_login_page emits_bind routine_sign_in
        routine_send_command)

lemma shaped_execute_account: "shaped login_navigations (execute_account dr a i d)"
  unfolding execute_account_def Let_def
  by (intro shaped_try_finally shaped_try_step_left shaped_run_command routine_account_failed
        routine_logout emits_try_step routine_send_telegram emits_ret)

lemma no_summary_connect:
  "emits (\<lambda>ev. \<not> is_summary_line ev) (connect dr [1..<MAX_RETRIES + 1])"
  unfolding emits_def
proof
  fix w
  show "list_all (\<lambda>ev. \<not> is_summary_line ev) (events (connect dr [1..<MAX_RETRIES + 1] w))"
    using connect_run [of dr w] unfolding attempts
    by (simp add: wp_def events_def del: connect.simps split: prod.splits)
qed

lemma routine_no_summary: "emits routine m \<Longrightarrow> emits (\<lambda>ev. \<not> is_summary_line ev) m"
  by (erule emits_mono) (simp add: routine_def)

lemma no_summary_Log [simp]:
  "is_summary_line (Log l (c # m)) = (c = 0x1F4CA \<and> startswith m (tl summary_prefix))"
  "\<not> is_summary_line (Log l [])" "\<not> is_summary_line (Call c' b)"
  "c \<noteq> 0x1F4CA \<Longrightarrow> \<not> is_summary_line (Log l (replicate n c))"
  by (cases n; auto simp: is_summary_line_def startswith_def summary_prefix_def)+

lemma no_summary_open_login_page:
  "emits (\<lambda>ev. \<not> is_summary_line ev) (open_login_page dr i u)"
  unfolding open_login_page_def
  by (intro emits_bind no_summary_connect) simp_all

lemma no_summary_execute_account:
  "emits (\<lambda>ev. \<not> is_summary_line ev) (execute_account dr a i d)"
  unfolding execute_account_def run_command_def Let_def
  by (intro emits_try_finally emits_try_step emits_bind no_summary_open_login_page emits_ret
        routine_no_summary [OF routine_sign_in] routine_no_summary [OF routine_send_command]
        routine_no_summary [OF routine_account_failed] routine_no_summary [OF routine_logout]
        routine_no_summary [OF routine_send_telegram])

lemma no_summary_account_loop:
  "emits (\<lambda>ev. \<not> is_summary_line ev) (account_loop dr i accounts d results)"
  by (induction accounts arbitrary: i results) (auto simp: no_summary_execute_account)

lemma summary_title_line [simp]: "is_summary_line (Log l (summary_title results))"
  by (simp add: is_summary_line_def summary_title_def startswith_def summary_prefix_def)

lemma login_main_run:
  "wp (login_main dr)
     (\<lambda>r w' es. if parse_accounts dr = [] then r = Inr () \<and> es = [Log INFO msg_no_accounts]
                 else is_ok r \<longleftrightarrow> list_ex is_summary_line es) w"
proof (cases "parse_accounts dr = []")
  case True
  then show ?thesis
    by (simp add: login_main_def log_info_def)
next
  case False
  then show ?thesis
    unfolding login_main_def Let_def ensure_dir_def summary_def log_info_def
    by (auto simp: is_ok_def list_ex_iff list_all_iff split: sum.splits
          intro!: emits_wp [OF no_summary_account_loop])
qed

section \<open>Exit status and first navigation\<close>

text \<open>
  C1. The cookie-injection script exits with status 0 exactly when the report was
  reached and closing the context and the browser did not raise; otherwise it exits with
  status 1. The interactive-login script exits with status 0 exactly when \<open>main\<close>
  returns: with no account that is after the single line "no account configured", with
  at least one account exactly when the summary was printed.
\<close>

theorem exit_status_report:
  "(exit_status (result (main dr w)) = 0 \<longleftrightarrow>
      report_reached (events (main dr w)) \<and> \<not> teardown_failed (events (main dr w))) \<and>
   exit_status (result (main dr w)) \<le> 1 \<and>
   (if parse_accounts dr = []
    then login_exit_status (result (login_main dr w)) = 0 \<and>
         events (login_main dr w) = [Log INFO msg_no_accounts]
    else login_exit_status (result (login_main dr w)) = 0 \<longleftrightarrow>
         list_ex is_summary_line (events (login_main dr w)))"
proof -
  have "finished (result (main dr w)) (events (main dr w))"
    using finished_main [of dr, unfolded exits_def, rule_format, of "[]" w] by simp
  moreover have "login_exit_status r = 0 \<longleftrightarrow> is_ok r" for r :: "exn + unit"
    by (simp add: login_exit_status_def is_ok_def split: sum.splits)
  ultimately show ?thesis
    using login_main_run [of dr w]
    by (auto simp: finished_def wp_def result_def events_def is_ok_def split: prod.splits if_splits)
qed

lemma parse_accounts_quiet: "parse_accounts quiet = []"
  by (simp add: parse_accounts_def getenv_def quiet_def strip_def split_def split_acc.simps
        List.map_filter_simps parse_account_line_def)

theorem exit_status_report_counterexample:
  "parse_accounts quiet = [] \<and>
   login_exit_status (result (login_main quiet 0)) = 0 \<and>
   events (login_main quiet 0) = [Log INFO msg_no_accounts]"
  by (simp add: parse_accounts_quiet login_main_def log_info_def log_def emit_def result_def
        events_def login_exit_status_def)

lemma connect_events:
  "calls (events (connect dr [1..<MAX_RETRIES + 1] w)) \<in> retry_runs"
  "is_ok (result (connect dr [1..<MAX_RETRIES + 1] w)) \<longleftrightarrow>
     last (calls (events (connect dr [1..<MAX_RETRIES + 1] w))) = nav_ok"
  using connect_run [of dr w] unfolding attempts
  by (simp_all add: wp_def result_def events_def del: connect.simps split: prod.splits)

text \<open>
  C3. Only the interactive-login strategy retries its first navigation: opening the
  login page makes up to three attempts, pauses 3 seconds after each failed attempt but
  the third, stops at the first success, and fails after the third failure; whatever
  happens afterwards (a rejected login included), the account makes no further
  navigation to the login page. The cookie-injection strategy navigates to the base
  address at most once in a run.
\<close>

theorem initial_navigation_attempts:
  "calls (events (connect dr [1..<MAX_RETRIES + 1] w)) \<in> retry_runs \<and>
   (is_ok (result (connect dr [1..<MAX_RETRIES + 1] w)) \<longleftrightarrow>
      last (calls (events (connect dr [1..<MAX_RETRIES + 1] w))) = nav_ok) \<and>
   filter is_login_navigation (events (execute_account dr account index screenshot_dir w))
     \<in> login_navigations \<and>
   length (filter is_initial_navigation (events (main dr w))) \<le> 1"
proof -
  have "finished (result (main dr w)) (events (main dr w))"
    using finished_main [of dr, unfolded exits_def, rule_format, of "[]" w] by simp
  then have "length (filter is_initial_navigation (events (main dr w))) \<le> 1"
    by (simp add: finished_def)
  moreover have "filter is_login_navigation
      (events (execute_account dr account index screenshot_dir w)) \<in> login_navigations"
    using shaped_execute_account [of dr account index screenshot_dir] by (simp add: shaped_def)
  ultimately show ?thesis
    using connect_events [of dr w] by blast
qed

lemma parse_cookies_example: "parse_cookies (lit ''a=b'') d \<noteq> []"
  by (simp add: parse_cookies_def split_def split_acc.simps startswith_def
        List.map_filter_simps parse_cookie_item_def strip_def is_space_def Let_def)

lemma unreachable_fields:
  "drv_environ unreachable (lit ''PANEL_BYTTE_COOKIES'') = Some (lit ''a=b'')"
  "drv_environ unreachable (lit ''TG_BOT_TOKEN'') = None"
  "drv_mkdir unreachable p w = (Inr (), w)"
  "drv_absolute unreachable p w = p"
  "drv_launch unreachable w = (Inr (), w)"
  "drv_add_cookies unreachable cs w = (Inr (), w)"
  "drv_goto unreachable url w = (Inl (PlaywrightTimeout (lit ''Timeout 60000ms exceeded'')), w)"
  "drv_screenshot unreachable p w = (Inr (), w)"
  "drv_exists unreachable p w = False"
  "drv_context_close unreachable w = (Inr (), w)"
  "drv_browser_close unreachable w = (Inr (), w)"
  "drv_inventory unreachable w = None"
  by (simp_all add: unreachable_def quiet_def)

lemma unreachable_env:
  "env_or_throw unreachable (lit ''PANEL_BYTTE_COOKIES'') = Inr (lit ''a=b'')"
  "env_or_default unreachable (lit ''TG_BOT_TOKEN'') [] = []"
  by (simp_all add: env_or_throw_def env_or_default_def unreachable_def)

lemma calls_logs [simp]: "calls (map (Log l) ms) = []" "calls (Log l m # es) = calls es"
  "calls (Call c b # es) = Call c b # calls es" "calls [] = []"
  "calls (es @ es') = calls es @ calls es'" "calls (map (Log l \<circ> f) xs) = []"
  by (simp_all add: calls_def is_call_def filter_empty_conv)

lemma unreachable_run:
  "wp (main unreachable)
     (\<lambda>r w' es. r = Inr 1 \<and>
        calls es =
          [Call (Mkdir OUTPUT_DIR) True, Call Launch True,
           Call (AddCookies (parse_cookies (lit ''a=b'') (lit ''panel.bytte.cloud''))) True,
           Call (Goto BASE_URL) False, Call (Screenshot (screenshot_path (lit ''99-error''))) True,
           Call ContextClose True, Call BrowserClose True]) 0"
  unfolding main_def main_try_def ensure_output_dir_def teardown_def top_failed_def
    parse_cookie_string_def notify_telegram_def visit_panel_def discover_def call_defs
  using parse_cookies_example [of "lit ''panel.bytte.cloud''"]
  by (simp add: unreachable_env [simplified] unreachable_fields Let_def)

theorem initial_navigation_attempts_counterexample:
  "calls (events (main unreachable 0)) =
     [Call (Mkdir OUTPUT_DIR) True, Call Launch True,
      Call (AddCookies (parse_cookies (lit ''a=b'') (lit ''panel.bytte.cloud''))) True,
      Call (Goto BASE_URL) False, Call (Screenshot (screenshot_path (lit ''99-error''))) True,
      Call ContextClose True, Call BrowserClose True] \<and>
   exit_status (result (main unreachable 0)) = 1"
  using unreachable_run
  by (simp add: wp_def result_def events_def exit_status_def split: prod.splits)

section \<open>Isolation of failures\<close>

lemma returns_perform_try:
  "(\<And>e. returns (h e)) \<Longrightarrow> (\<And>x. returns (k x)) \<Longrightarrow> returns (try_step (perform c op) h k)"
  by (rule returns_try_step)

lemma returns_server_failed: "returns (server_failed name e)"
  unfolding server_failed_def
  by (auto split: exn.splits)

lemma returns_fail_with: "returns (fail_with fs name e)"
  unfolding fail_with_def
  by (auto simp: returns_server_failed)

lemma returns_renew_step: "returns (renew_step dr idx server fs a b)"
  unfolding renew_step_def Let_def
  by (intro returns_bind returns_try_step returns_fail_with returns_if returns_ret returns_log)

lemma returns_process_server: "returns (process_server dr n idx server fs)"
  unfolding process_server_def
  by (intro returns_bind returns_try_step returns_fail_with returns_if returns_ret returns_log
        returns_renew_step)

lemma server_loop_all:
  assumes "\<And>w. is_ok (fst (drv_wait_for_timeout dr 2000 w))"
  shows "wp (server_loop dr n idx servers fs results)
           (\<lambda>r w' es. \<exists>fs' lines. r = Inr (Inr (fs', results @ lines)) \<and>
                         length lines = length servers) w"
proof (induction servers arbitrary: idx fs results w)
  case Nil
  then show ?case by simp
next
  case (Cons server rest)
  have p: "wp (process_server dr n idx server fs) (\<lambda>r w' es. is_ok r) w" for w
    using returns_process_server [of dr n idx server fs]
    by (simp add: returns_def wp_def result_def case_prod_beta)
  show ?case
  proof (simp add: wait_for_timeout_def, rule wp_mono [OF p], goal_cases)
    case (1 r w' es)
    then obtain out where r: "r = Inr out"
      by (auto simp: is_ok_def split: sum.splits)
    have ih: "wp (server_loop dr n (Suc idx) rest (fst out) (results @ [snd out]))
                (\<lambda>r' w3 es'. \<exists>fs' lines. r' = Inr (Inr (fs', results @ lines)) \<and>
                                 length lines = Suc (length rest)) w''" for w''
    proof (rule wp_mono [OF Cons.IH])
      fix r2 :: "exn + ((exn \<times> ustr option) + (ustr option \<times> ustr list))"
      assume "\<exists>fs' lines. r2 = Inr (Inr (fs', (results @ [snd out]) @ lines)) \<and>
                length lines = length rest"
      then obtain fs' lines where "r2 = Inr (Inr (fs', results @ (snd out # lines)))"
        "length (snd out # lines) = Suc (length rest)"
        by auto
      then show "\<exists>fs' lines. r2 = Inr (Inr (fs', results @ lines)) \<and>
                  length lines = Suc (length rest)"
        by blast
    qed
    show ?case
      using assms [of w'] ih by (auto simp: r is_ok_def split: sum.splits)
  qed
qed

lemma stuck_accounts:
  "parse_accounts stuck =
     [\<lparr>username = lit ''u1'', password = lit ''p1'', command = lit ''c1''\<rparr>,
      \<lparr>username = lit ''u2'', password = lit ''p2'', command = lit ''c2''\<rparr>]"
  by (simp add: parse_accounts_def getenv_def stuck_def strip_def is_space_def split_def
        split_acc.simps startswith_def List.map_filter_simps parse_account_line_def Let_def)

lemma stuck_fields:
  "drv_mkdir stuck p w = (Inr (), w)"
  "drv_launch stuck w = (Inr (), w)"
  "drv_goto stuck url w = (Inl (Exception (lit ''net::ERR_CONNECTION_REFUSED'')), w)"
  "drv_sleep stuck s w = w"
  "drv_scrub stuck m = m"
  "drv_screenshot stuck p w = (Inl (Exception (lit ''screenshot failed'')), w)"
  "drv_count stuck l w = (Inr 0, w)"
  by (simp_all add: stuck_def quiet_def)

lemma login_nav_simps [simp]:
  "\<not> is_login_navigation (Log l m)"
  "is_login_navigation (Call c b) = (c = Goto LOGIN_URL)"
  by (auto simp: is_login_navigation_def)

lemma attempts_numeral: "[Suc 0..<4] = [Suc 0, 2, 3]"
  by (simp add: upt_rec)

lemma stuck_run:
  "wp (login_main stuck)
     (\<lambda>r w' es. r = Inl (Exception (lit ''screenshot failed'')) \<and>
        filter is_login_navigation es = [nav_failed, nav_failed, nav_failed] \<and>
        \<not> list_ex is_summary_line es) 0"
  unfolding login_main_def stuck_accounts Let_def
  apply (simp add: execute_account_def run_command_def open_login_page_def attempts
      account_failed_def logout_def logout_selectors_def ensure_dir_def attempts_numeral
      MAX_RETRIES_def log_info_def call_defs login_call_defs stuck_fields nav_failed_def)
  done

text \<open>
  C2. In the cookie-injection script an exception raised while a server is processed
  never leaves the turn of the loop: \<open>process_server\<close> always returns, and when the
  wait between two servers does not raise, the loop adds one line for every server.
  In the interactive-login script the handler of \<open>execute_account\<close> takes its
  screenshot outside any \<open>try\<close>: with two accounts, a site that cannot be reached and a
  screenshot that fails, the exception leaves \<open>main\<close>, the second account is never
  tried and no summary is printed.
\<close>

theorem resource_isolation:
  "is_ok (result (process_server dr n idx server fs w)) \<and>
   ((\<forall>w. is_ok (fst (drv_wait_for_timeout dr 2000 w))) \<longrightarrow>
    (\<exists>fs' lines.
       result (server_loop dr n idx servers fs results w) = Inr (Inr (fs', results @ lines)) \<and>
       length lines = length servers)) \<and>
   length (parse_accounts stuck) = 2 \<and>
   result (login_main stuck 0) = Inl (Exception (lit ''screenshot failed'')) \<and>
   filter is_login_navigation (events (login_main stuck 0)) =
     [nav_failed, nav_failed, nav_failed] \<and>
   \<not> list_ex is_summary_line (events (login_main stuck 0))"
proof -
  have "is_ok (result (process_server dr n idx server fs w))"
    using returns_process_server [of dr n idx server fs] by (simp add: returns_def)
  moreover have "\<exists>fs' lines.
       result (server_loop dr n idx servers fs results w) = Inr (Inr (fs', results @ lines)) \<and>
       length lines = length servers"
    if "\<forall>w. is_ok (fst (drv_wait_for_timeout dr 2000 w))"
    using server_loop_all [of dr n idx servers fs results w] that
    by (simp add: wp_def result_def case_prod_beta)
  moreover have "length (parse_accounts stuck) = 2"
    by (simp add: stuck_accounts)
  ultimately show ?thesis
    using stuck_run by (simp add: wp_def result_def events_def case_prod_beta)
qed

theorem resource_isolation_witness:
  "\<exists>fs' lines.
     result (server_loop quiet 2 0
               [server_of (lit ''one'', lit ''aaaa1111''), server_of (lit ''two'', lit ''bbbb2222'')]
               None [] 0) = Inr (Inr (fs', lines)) \<and>
     length lines = 2"
proof -
  have "\<forall>w. is_ok (fst (drv_wait_for_timeout quiet 2000 w))"
    by (simp add: quiet_def is_ok_def)
  then show ?thesis
    using resource_isolation
            [of quiet 2 0 "server_of (lit ''one'', lit ''aaaa1111'')" None 0
                "[server_of (lit ''one'', lit ''aaaa1111''),
                  server_of (lit ''two'', lit ''bbbb2222'')]" "[]"]
    by (simp add: numeral_2_eq_2 del: server_loop.simps)
qed

section \<open>Identifiers in the log\<close>

text \<open>
  C8. The lines the script composes from a server identifier use \<open>mask_id\<close>, but the
  identifier also reaches the log unmasked. When the navigation to a server's page
  raises an exception other than a timeout, the text of the exception is logged in
  full, and that text names the address of the page, which ends in the identifier.
  And \<open>mask_id\<close> returns an identifier of at most four characters unchanged.
\<close>

theorem identifier_exposure:
  "(drv_goto dr (server_url server) w = (Inl (Exception m), w') \<longrightarrow>
      Log ERROR (msg_server_failed (server_name server) m)
        \<in> set (events (process_server dr n idx server fs w))) \<and>
   (length ident \<le> 4 \<longrightarrow> mask_id ident = ident) \<and>
   (4 < length ident \<longrightarrow>
      mask_id ident =
        take 2 ident @ replicate (length ident - 4) 42 @
        drop (length ident - 2) ident)"
proof -
  have "wp (process_server dr n idx server fs)
          (\<lambda>r w' es. Log ERROR (msg_server_failed (server_name server) m) \<in> set es) w"
    if "drv_goto dr (server_url server) w = (Inl (Exception m), w')"
    unfolding process_server_def page_goto_def
    using that
    by (simp add: fail_with_def server_failed_def msg_server_failed_def)
  then show ?thesis
    by (auto simp: wp_def events_def mask_id_def split: prod.splits)
qed

theorem identifier_exposure_witness:
  "Log ERROR
     (msg_server_failed (lit ''srv'')
        (lit ''Page.goto: net::ERR_ABORTED at https://panel.bytte.cloud/server/abc12345''))
     \<in> set (events (process_server leaky 1 0 (server_of (lit ''srv'', lit ''abc12345'')) None 0)) \<and>
   contains (lit ''abc12345'')
     (msg_server_failed (lit ''srv'')
        (lit ''Page.goto: net::ERR_ABORTED at https://panel.bytte.cloud/server/abc12345'')) \<and>
   mask_id (lit ''abc12345'') = lit ''ab****45'' \<and>
   mask_id (lit ''abcd'') = lit ''abcd''"
proof -
  have "drv_goto leaky (server_url (server_of (lit ''srv'', lit ''abc12345''))) 0 =
          (Inl (Exception
             (lit ''Page.goto: net::ERR_ABORTED at https://panel.bytte.cloud/server/abc12345'')), 0)"
    by (simp add: leaky_def quiet_def server_of_def BASE_URL_def)
  then have "Log ERROR
     (msg_server_failed (lit ''srv'')
        (lit ''Page.goto: net::ERR_ABORTED at https://panel.bytte.cloud/server/abc12345''))
     \<in> set (events (process_server leaky 1 0 (server_of (lit ''srv'', lit ''abc12345'')) None 0))"
    using identifier_exposure
            [of leaky "server_of (lit ''srv'', lit ''abc12345'')" 0
                "lit ''Page.goto: net::ERR_ABORTED at https://panel.bytte.cloud/server/abc12345''"
                0 1 0 None "lit ''abcd''"]
    by (simp add: server_of_def)
  moreover have "contains (lit ''abc12345'')
     (msg_server_failed (lit ''srv'')
        (lit ''Page.goto: net::ERR_ABORTED at https://panel.bytte.cloud/server/abc12345''))"
    by (simp add: msg_server_failed_def startswith_def)
  moreover have "mask_id (lit ''abc12345'') = lit ''ab****45''" "mask_id (lit ''abcd'') = lit ''abcd''"
    by (simp_all add: mask_id_def)
  ultimately show ?thesis
    by blast
qed

section \<open>Renewal and the page\<close>

lemma first_match_shown:
  "first_match dr p sels w = (r, w', es) \<Longrightarrow> shown dr sels w = (r, w')"
proof (induction sels arbitrary: w r w' es)
  case Nil
  then show ?case by (auto simp: ret_def)
next
  case (Cons s sels)
  show ?case
  proof (cases "drv_count dr (Locator s) w")
    case (Pair rc w1)
    show ?thesis
    proof (cases rc)
      case (Inl e)
      then show ?thesis
        using Cons.prems Pair by (auto simp: call_defs io_defs)
    next
      case (Inr n)
      show ?thesis
      proof (cases "n > 0")
        case True
        then show ?thesis
          using Cons.prems Pair Inr
          by (cases "drv_inner_text dr (First s) w1")
             (auto simp: call_defs io_defs split: sum.splits)
      next
        case False
        then obtain es' where "first_match dr p sels w1 = (r, w', es')"
          using Cons.prems Pair Inr by (auto simp: call_defs io_defs split: prod.splits)
        from Cons.IH [OF this] show ?thesis
          using Pair Inr False by simp
      qed
    qed
  qed
qed

lemma confirm_attempt_try:
  "confirm_attempt dr s w = (r, w', es) \<Longrightarrow>
   \<exists>c. confirm_try dr s w = (c, r = Inr True, w')"
  unfolding confirm_attempt_def confirm_try_def call_defs io_defs
  by (auto split: prod.splits sum.splits if_splits)

lemma confirm_loop_spec:
  "confirm_loop dr sels w = (r, w', es) \<Longrightarrow> r = Inr (snd (confirm_spec dr sels w))"
proof (induction sels arbitrary: w r w' es)
  case Nil
  then show ?case by (simp add: ret_def)
next
  case (Cons s sels)
  obtain ra wa ea where a: "confirm_attempt dr s w = (ra, wa, ea)"
    by (metis prod_cases3)
  from confirm_attempt_try [OF a] obtain c where t: "confirm_try dr s w = (c, ra = Inr True, wa)"
    by blast
  show ?case
  proof (cases "ra = Inr True")
    case True
    then show ?thesis
      using Cons.prems a t by (simp add: try_step_def ret_def)
  next
    case False
    then obtain es' where "confirm_loop dr sels wa = (r, w', es')"
      using Cons.prems a
      by (auto simp: try_step_def ret_def split: sum.splits prod.splits if_splits)
    from Cons.IH [OF this] show ?thesis
      using t False by simp
  qed
qed

lemma first_match_run:
  obtains r w' es where "first_match dr p sels w = (r, w', es)" "shown dr sels w = (r, w')"
    "\<not> list_ex is_click es" "\<not> handler_ran es"
proof -
  obtain r w' es where m: "first_match dr p sels w = (r, w', es)"
    by (metis prod_cases3)
  have "fm_post p r es"
    using first_match_post [of dr p sels w] m by (simp add: wp_def)
  then have "\<not> list_ex is_click es" "\<not> handler_ran es"
    by (auto simp: fm_post_def handler_ran_def)
  then show ?thesis
    using that m first_match_shown [OF m] by blast
qed

lemma renew_failed_run:
  "renew_failed r e w =
     (Inr (r\<lparr>message := msg_check_failed @ take 50 (str_exn e)\<rparr>), w,
      [Log ERROR ([0x7EED, 0x7EA6, 0x68C0, 0x67E5, 0x5931, 0x8D25] @ lit '': '' @ str_exn e)])"
  by (simp add: renew_failed_def io_defs)

lemma check_and_renew_label_raised:
  assumes "label_shown dr w = (Inl e, w')"
  shows "\<exists>r0 es. check_and_renew dr w =
            (Inr (r0\<lparr>message := msg_check_failed @ take 50 (str_exn e)\<rparr>), w', es) \<and>
          \<not> need_renew r0 \<and> \<not> renewed r0 \<and> handler_ran es \<and> \<not> list_ex is_click es"
proof (cases "drv_wait_for_timeout dr 2000 w")
  case (Pair r0 w1)
  show ?thesis
  proof (cases r0)
    case (Inl e0)
    then show ?thesis
      using assms Pair
      by (auto simp: label_shown_def check_and_renew_def try_step_def wait_for_timeout_def
            perform_def renew_failed_run empty_result_def is_ok_def
          intro!: exI [of _ empty_result])
  next
    case (Inr u)
    obtain rb w2 es1 where b: "first_match dr balance_found balance_selectors w1 = (rb, w2, es1)"
      "shown dr balance_selectors w1 = (rb, w2)" "\<not> list_ex is_click es1" "\<not> handler_ran es1"
      by (rule first_match_run)
    show ?thesis
    proof (cases rb)
      case (Inl eb)
      then show ?thesis
        using assms Pair Inr b
        by (auto simp: label_shown_def check_and_renew_def try_step_def wait_for_timeout_def
              perform_def renew_failed_run empty_result_def is_ok_def
            intro!: exI [of _ empty_result])
    next
      case (Inr bv)
      note rb = this
      obtain rx w3 es2 where x:
        "first_match dr expiration_found expiration_selectors w2 = (rx, w3, es2)"
        "shown dr expiration_selectors w2 = (rx, w3)" "\<not> list_ex is_click es2"
        "\<not> handler_ran es2"
        by (rule first_match_run)
      show ?thesis
      proof (cases rx)
        case (Inl ex)
        then show ?thesis
          using assms Pair \<open>r0 = Inr u\<close> b rb x
          by (auto simp: label_shown_def check_and_renew_def try_step_def wait_for_timeout_def
                perform_def renew_failed_run empty_result_def is_ok_def
              intro!: exI [of _ "empty_result\<lparr>balance := found_text bv\<rparr>"])
      next
        case (Inr xv)
        obtain rl w4 es3 where l:
          "first_match dr renew_found renew_selectors w3 = (rl, w4, es3)"
          "shown dr renew_selectors w3 = (rl, w4)" "\<not> list_ex is_click es3"
          "\<not> handler_ran es3"
          by (rule first_match_run)
        show ?thesis
          using assms Pair \<open>r0 = Inr u\<close> b rb x Inr l
          by (auto simp: label_shown_def check_and_renew_def try_step_def wait_for_timeout_def
                perform_def renew_failed_run empty_result_def is_ok_def
              intro!: exI [of _ "empty_result\<lparr>balance := found_text bv,
                                               expiration := found_text xv\<rparr>"])
      qed
    qed
  qed
qed

lemma check_and_renew_label_shown:
  assumes "label_shown dr w = (Inr btn, w4)"
  shows "\<exists>r2 es0. \<not> need_renew r2 \<and> \<not> renewed r2 \<and> \<not> handler_ran es0 \<and>
          \<not> list_ex is_click es0 \<and>
          check_and_renew dr w =
            (case on_renew_button dr r2 btn w4 of (r, w', es) \<Rightarrow> (r, w', es0 @ es))"
proof -
  obtain w1 where 0: "drv_wait_for_timeout dr 2000 w = (Inr (), w1)"
    using assms by (auto simp: label_shown_def split: prod.splits sum.splits)
  obtain rb w2 es1 where b: "first_match dr balance_found balance_selectors w1 = (rb, w2, es1)"
    "shown dr balance_selectors w1 = (rb, w2)" "\<not> list_ex is_click es1" "\<not> handler_ran es1"
    by (rule first_match_run)
  obtain bv where rb: "rb = Inr bv"
    using assms 0 b by (cases rb) (auto simp: label_shown_def)
  obtain rx w3 es2 where x:
    "first_match dr expiration_found expiration_selectors w2 = (rx, w3, es2)"
    "shown dr expiration_selectors w2 = (rx, w3)" "\<not> list_ex is_click es2" "\<not> handler_ran es2"
    by (rule first_match_run)
  obtain xv where rx: "rx = Inr xv"
    using assms 0 b rb x by (cases rx) (auto simp: label_shown_def)
  obtain rl w4' es3 where l:
    "first_match dr renew_found renew_selectors w3 = (rl, w4', es3)"
    "shown dr renew_selectors w3 = (rl, w4')" "\<not> list_ex is_click es3" "\<not> handler_ran es3"
    by (rule first_match_run)
  have rl: "rl = Inr btn" "w4' = w4"
    using assms 0 b rb x rx l by (auto simp: label_shown_def)
  show ?thesis
    apply (rule exI [of _ "empty_result\<lparr>balance := found_text bv, expiration := found_text xv\<rparr>"])
    apply (rule exI [of _ "Call (WaitForTimeout 2000) True # es1 @ es2 @ es3"])
    using 0 b rb x rx l rl
    apply (auto simp: check_and_renew_def try_step_def wait_for_timeout_def perform_def
        empty_result_def is_ok_def list_ex_iff split: prod.splits)
    done
qed

lemma confirm_loop_run:
  obtains w' es where
    "confirm_loop dr sels w = (Inr (snd (confirm_spec dr sels w)), w', es)" "\<not> handler_ran es"
proof -
  obtain r w' es where m: "confirm_loop dr sels w = (r, w', es)"
    by (metis prod_cases3)
  have "cl_post sels r es"
    using confirm_loop_post [of dr sels w] m by (simp add: wp_def)
  then have "\<not> handler_ran es"
    by (simp add: cl_post_def)
  then show ?thesis
    using that m confirm_loop_spec [OF m] by blast
qed

lemma renew_free_click_raised:
  assumes "drv_click dr (First s) w = (Inl e, w5)"
  shows "\<exists>es. renew_free dr r s w =
            (Inr (r\<lparr>message := msg_check_failed @ take 50 (str_exn e)\<rparr>), w5, es) \<and>
          handler_ran es \<and> Call (Click (First s)) False \<in> set es"
  using assms
  by (simp add: renew_free_def click_def io_defs renew_failed_run)

lemma renew_free_wait_raised:
  assumes "drv_click dr (First s) w = (Inr (), w5)"
    and "drv_wait_for_timeout dr 2000 w5 = (Inl e, w6)"
  shows "\<exists>es. renew_free dr r s w =
            (Inr (r\<lparr>message := msg_check_failed @ take 50 (str_exn e)\<rparr>), w6, es) \<and>
          handler_ran es \<and> Call (Click (First s)) True \<in> set es"
  using assms
  by (simp add: renew_free_def click_def wait_for_timeout_def io_defs renew_failed_run)

lemma renew_free_started:
  assumes "drv_click dr (First s) w = (Inr (), w5)"
    and "drv_wait_for_timeout dr 2000 w5 = (Inr (), w6)"
  shows "\<exists>w7 es. renew_free dr r s w =
            (Inr (if snd (confirm_spec dr confirm_selectors w6)
                  then r\<lparr>renewed := True, message := msg_renew_ok\<rparr>
                  else r\<lparr>message := msg_no_confirm\<rparr>), w7, es) \<and>
          \<not> handler_ran es \<and> Call (Click (First s)) True \<in> set es"
proof -
  obtain w7 es4 where c:
    "confirm_loop dr confirm_selectors w6 =
       (Inr (snd (confirm_spec dr confirm_selectors w6)), w7, es4)" "\<not> handler_ran es4"
    by (rule confirm_loop_run)
  show ?thesis
    using assms c
    by (simp add: renew_free_def click_def wait_for_timeout_def io_defs
          del: confirm_loop.simps confirm_spec.simps)
qed

lemma renew_decide_paid:
  assumes "\<not> is_free_label (drv_decimal dr) t"
  shows "\<exists>rr es. renew_decide dr r s t w = (Inr rr, w, es) \<and> need_renew rr = need_renew r \<and>
          renewed rr = renewed r \<and> \<not> handler_ran es \<and> \<not> list_ex is_click es"
  using assms by (simp add: renew_decide_def Let_def io_defs)

lemma renew_decide_free:
  assumes "is_free_label (drv_decimal dr) t"
  shows "\<exists>r3 es0. need_renew r3 \<and> renewed r3 = renewed r \<and> \<not> handler_ran es0 \<and>
          \<not> list_ex is_click es0 \<and>
          renew_decide dr r s t w =
            (case renew_free dr r3 s w of (r', w', es) \<Rightarrow> (r', w', es0 @ es))"
proof (cases "contains (lit ''-'') t")
  case True
  show ?thesis
    apply (rule exI [of _ "r\<lparr>price := price_part t, need_renew := True\<rparr>"])
    apply (rule exI [of _ "[Log INFO ([0x1F4B5] @ lit '' '' @ [0x7EED, 0x7EA6, 0x4EF7, 0x683C] @
                                     lit '': '' @ price_part t)]"])
    using assms True
    apply (simp add: renew_decide_def Let_def io_defs split: prod.splits)
    done
next
  case False
  show ?thesis
    apply (rule exI [of _ "r\<lparr>need_renew := True\<rparr>"])
    apply (rule exI [of _ "[]"])
    using assms False
    apply (simp add: renew_decide_def Let_def io_defs split: prod.splits)
    done
qed

lemma renew_not_found_run:
  "\<exists>es. renew_not_found r w = (Inr (r\<lparr>message := msg_no_renew_button\<rparr>), w, es) \<and>
        \<not> handler_ran es \<and> \<not> list_ex is_click es"
  by (simp add: renew_not_found_def io_defs)

lemma check_and_renew_page:
  "\<exists>rr. result (check_and_renew dr w) = Inr rr \<and>
     (need_renew rr \<longleftrightarrow> (\<exists>s w4. renewal_due dr w s w4)) \<and>
     (\<forall>s w4. renewal_due dr w s w4 \<longrightarrow>
        (\<exists>ok. Call (Click (First s)) ok \<in> set (events (check_and_renew dr w)))) \<and>
     (\<forall>e. protocol_failure dr w e \<longrightarrow>
        \<not> renewed rr \<and> message rr = msg_check_failed @ take 50 (str_exn e)) \<and>
     (handler_ran (events (check_and_renew dr w)) \<longleftrightarrow> (\<exists>e. protocol_failure dr w e)) \<and>
     (\<forall>w6. renewal_started dr w w6 \<longrightarrow>
        (renewed rr \<longleftrightarrow> snd (confirm_spec dr confirm_selectors w6)) \<and>
        (\<not> renewed rr \<longrightarrow> message rr = msg_no_confirm)) \<and>
     (renewed rr \<longrightarrow> (\<exists>w6. renewal_started dr w w6))"
proof (cases "label_shown dr w")
  case (Pair rl w4)
  show ?thesis
  proof (cases rl)
    case (Inl e)
    from check_and_renew_label_raised [of dr w e w4] Pair Inl
    obtain r0 es where "check_and_renew dr w =
        (Inr (r0\<lparr>message := msg_check_failed @ take 50 (str_exn e)\<rparr>), w4, es)"
      "\<not> need_renew r0" "\<not> renewed r0" "handler_ran es"
      by auto
    then show ?thesis
      using Pair Inl
      by (auto simp: result_def events_def renewal_due_def renewal_started_def
            protocol_failure_def)
  next
    case (Inr btn)
    from check_and_renew_label_shown [of dr w btn w4] Pair Inr
    obtain r2 es0 where r2: "\<not> need_renew r2" "\<not> renewed r2" "\<not> handler_ran es0"
      and run: "check_and_renew dr w =
        (case on_renew_button dr r2 btn w4 of (r, w', es) \<Rightarrow> (r, w', es0 @ es))"
      by auto
    have lab: "label_shown dr w = (Inr btn, w4)"
      using Pair Inr by simp
    consider (absent) "btn = None \<or> (\<exists>s. btn = Some (s, []))"
      | (paid) s t where "btn = Some (s, t)" "t \<noteq> []" "\<not> is_free_label (drv_decimal dr) t"
      | (free) s t where "btn = Some (s, t)" "t \<noteq> []" "is_free_label (drv_decimal dr) t"
      by (cases btn) (auto, blast)
    then show ?thesis
    proof cases
      case absent
      obtain es where "renew_not_found r2 w4 = (Inr (r2\<lparr>message := msg_no_renew_button\<rparr>), w4, es)"
        "\<not> handler_ran es"
        using renew_not_found_run [of r2 w4] by blast
      moreover have "on_renew_button dr r2 btn w4 = renew_not_found r2 w4"
        using absent by (auto simp: on_renew_button_def)
      ultimately show ?thesis
        using absent r2 run lab
        by (auto simp: result_def events_def renewal_due_def renewal_started_def
              protocol_failure_def)
    next
      case paid
      obtain rr es where "renew_decide dr r2 s t w4 = (Inr rr, w4, es)"
        "need_renew rr = need_renew r2" "renewed rr = renewed r2" "\<not> handler_ran es"
        using renew_decide_paid [OF paid(3), of r2 s w4] by blast
      moreover have "on_renew_button dr r2 btn w4 = renew_decide dr r2 s t w4"
        using paid by (simp add: on_renew_button_def)
      ultimately show ?thesis
        using paid r2 run lab
        by (auto simp: result_def events_def renewal_due_def renewal_started_def
              protocol_failure_def)
    next
      case free
      obtain r3 es1 where r3: "need_renew r3" "renewed r3 = renewed r2" "\<not> handler_ran es1"
        and dec: "renew_decide dr r2 s t w4 =
          (case renew_free dr r3 s w4 of (r', w', es) \<Rightarrow> (r', w', es1 @ es))"
        using renew_decide_free [OF free(3), of r2 s w4] by blast
      have orb: "on_renew_button dr r2 btn w4 = renew_decide dr r2 s t w4"
        using free by (simp add: on_renew_button_def)
      have due: "renewal_due dr w s' w4' \<longleftrightarrow> s' = s \<and> w4' = w4" for s' w4'
        using lab free by (auto simp: renewal_due_def)
      obtain rc w5 where click: "drv_click dr (First s) w4 = (rc, w5)"
        by (cases "drv_click dr (First s) w4")
      show ?thesis
      proof (cases rc)
        case (Inl e)
        obtain es where "renew_free dr r3 s w4 =
            (Inr (r3\<lparr>message := msg_check_failed @ take 50 (str_exn e)\<rparr>), w5, es)"
          "handler_ran es" "Call (Click (First s)) False \<in> set es"
          using renew_free_click_raised [of dr s w4 e w5 r3] click Inl by blast
        then show ?thesis
          using r2 r3 run orb dec click Inl lab
          by (auto simp: result_def events_def due renewal_started_def protocol_failure_def)
      next
        case (Inr u)
        obtain rw w6 where wait: "drv_wait_for_timeout dr 2000 w5 = (rw, w6)"
          by (cases "drv_wait_for_timeout dr 2000 w5")
        show ?thesis
        proof (cases rw)
          case (Inl e)
          obtain es where "renew_free dr r3 s w4 =
              (Inr (r3\<lparr>message := msg_check_failed @ take 50 (str_exn e)\<rparr>), w6, es)"
            "handler_ran es" "Call (Click (First s)) True \<in> set es"
            using renew_free_wait_raised [of dr s w4 w5 e w6 r3] click \<open>rc = Inr u\<close> wait Inl
            by auto
          then show ?thesis
            using r2 r3 run orb dec click \<open>rc = Inr u\<close> wait Inl lab
            by (auto simp: result_def events_def due renewal_started_def protocol_failure_def)
        next
          case (Inr u')
          obtain w7 es where "renew_free dr r3 s w4 =
              (Inr (if snd (confirm_spec dr confirm_selectors w6)
                    then r3\<lparr>renewed := True, message := msg_renew_ok\<rparr>
                    else r3\<lparr>message := msg_no_confirm\<rparr>), w7, es)"
            "\<not> handler_ran es" "Call (Click (First s)) True \<in> set es"
            using renew_free_started [of dr s w4 w5 w6 r3] click \<open>rc = Inr u\<close> wait Inr
            by auto
          then show ?thesis
            using r2 r3 run orb dec click \<open>rc = Inr u\<close> wait Inr lab
            by (auto simp: result_def events_def due renewal_started_def protocol_failure_def
                  simp del: confirm_spec.simps)
        qed
      qed
    qed
  qed
qed

text \<open>
  C5. A label is judged free exactly when it contains the token \<open>0.00\<close> or the number
  parsed from its segment after the last \<open>-\<close> is zero; without the token, a label with
  no separator or with no number in that segment is not free. \<open>check_and_renew\<close>
  reports that renewal is needed exactly when the page shows a renewal control with a
  non-empty label that is judged free; then it clicks that control, and otherwise it
  clicks nothing.
\<close>

theorem renewal_eligibility:
  "(is_free_label dec l \<longleftrightarrow> free_spec dec l) \<and>
   (\<not> has_zero_token l \<and>
    (45 \<notin> set l \<or> (\<exists>seg. trailing_segment l seg \<and> first_number dec (strip seg) = None)) \<longrightarrow>
      \<not> is_free_label dec l) \<and>
   (\<exists>r. result (check_and_renew dr w) = Inr r \<and>
      (need_renew r \<longleftrightarrow> (\<exists>s w4. renewal_due dr w s w4)) \<and>
      (\<not> need_renew r \<longrightarrow> \<not> list_ex is_click (events (check_and_renew dr w))) \<and>
      (\<forall>s w4. renewal_due dr w s w4 \<longrightarrow>
         (\<exists>ok. Call (Click (First s)) ok \<in> set (events (check_and_renew dr w)))))"
proof -
  from wpI [where P = "renew_post (drv_decimal dr)", OF check_and_renew_post [of dr w]]
  have "renew_post (drv_decimal dr) (result (check_and_renew dr w)) (events (check_and_renew dr w))" .
  then have "\<forall>r. result (check_and_renew dr w) = Inr r \<longrightarrow> \<not> need_renew r \<longrightarrow>
      \<not> list_ex is_click (events (check_and_renew dr w))"
    unfolding renew_post_def by auto
  then have "\<exists>r. result (check_and_renew dr w) = Inr r \<and>
      (need_renew r \<longleftrightarrow> (\<exists>s w4. renewal_due dr w s w4)) \<and>
      (\<not> need_renew r \<longrightarrow> \<not> list_ex is_click (events (check_and_renew dr w))) \<and>
      (\<forall>s w4. renewal_due dr w s w4 \<longrightarrow>
         (\<exists>ok. Call (Click (First s)) ok \<in> set (events (check_and_renew dr w))))"
    using check_and_renew_page [of dr w] by blast
  then show ?thesis
    using is_free_label_spec [of dec l] parse_failure_not_free [of l dec] by blast
qed

lemma shown_first:
  assumes "drv_count dr (Locator s) w = (Inr n, w1)" "0 < n"
    and "drv_inner_text dr (First s) w1 = (Inr t, w2)"
  shows "shown dr (s # rest) w = (Inr (Some (s, strip t)), w2)"
  using assms by simp

lemma renewal_page_fields:
  "drv_wait_for_timeout (renewal_page l) ms w = (Inr (), w)"
  "drv_count (renewal_page l) c w = (Inr 1, w)"
  "drv_inner_text (renewal_page l) c w = (Inr l, w)"
  "drv_is_visible (renewal_page l) c w = (Inr True, w)"
  "drv_click (renewal_page l) c w = (Inr (), w)"
  "drv_decimal (renewal_page l) = ascii_decimal"
  by (simp_all add: renewal_page_def quiet_def)

lemma renewal_page_label:
  "label_shown (renewal_page l) w = (Inr (Some (hd renew_selectors, strip l)), w)"
  unfolding label_shown_def
  apply (subst sels(1), subst sels(2), subst sels(3))
  apply (simp add: renewal_page_fields del: shown.simps
      add: shown_first [of "renewal_page l" _ w 1 w l w])
  done

lemma zero_label_free:
  "\<not> has_zero_token zero_label" "is_free_label ascii_decimal zero_label"
  "zero_label \<noteq> []" "strip zero_label = zero_label"
proof -
  show n: "\<not> has_zero_token zero_label"
    unfolding has_zero_token_def contains_iff [symmetric]
    by (simp add: zero_label_def startswith_def)
  have p: "price_part zero_label = lit ''0 USD''"
    by (simp add: zero_label_def price_part_def startswith_def split_def split_acc.simps
          strip_def is_space_def)
  have f: "first_number ascii_decimal (lit ''0 USD'') = Some ([0], [])"
    by (simp add: first_number_def ascii_decimal_def)
  show "is_free_label ascii_decimal zero_label"
    using n unfolding has_zero_token_def contains_iff [symmetric]
    by (simp add: is_free_label_def p [simplified] f [simplified] float_is_zero_def
          digits_value_def)
  show "zero_label \<noteq> []" "strip zero_label = zero_label"
    by (simp_all add: zero_label_def strip_def is_space_def)
qed

lemma wordy_label_segment:
  "\<not> has_zero_token wordy_label" "trailing_segment wordy_label (lit '' free'')"
  "first_number ascii_decimal (strip (lit '' free'')) = None"
proof -
  show "\<not> has_zero_token wordy_label"
    unfolding has_zero_token_def contains_iff [symmetric]
    by (simp add: wordy_label_def startswith_def)
  show "trailing_segment wordy_label (lit '' free'')"
    unfolding trailing_segment_def wordy_label_def
    by (rule exI [of _ "lit ''Renew Server ''"]) simp
  show "first_number ascii_decimal (strip (lit '' free'')) = None"
    by (simp add: first_number_def ascii_decimal_def strip_def is_space_def)
qed

lemma plain_label:
  "\<not> has_zero_token (lit ''Renew Server'')" "45 \<notin> set (lit ''Renew Server'')"
proof -
  show "\<not> has_zero_token (lit ''Renew Server'')"
    unfolding has_zero_token_def contains_iff [symmetric]
    by (simp add: startswith_def)
  show "45 \<notin> set (lit ''Renew Server'')"
    by simp
qed

text \<open>
  The theorem at the labels of the specification, at a label that is free by its number
  only, at labels that do not parse, and at pages that show a free, a zero-priced and a
  paid renewal.
\<close>

theorem renewal_eligibility_witness:
  "is_free_label ascii_decimal free_label \<and> free_spec ascii_decimal free_label \<and>
   is_free_label ascii_decimal zero_label \<and> \<not> has_zero_token zero_label \<and>
   price_is_zero ascii_decimal zero_label \<and>
   \<not> is_free_label ascii_decimal (lit ''Renew Server'') \<and>
   \<not> is_free_label ascii_decimal wordy_label \<and>
   \<not> is_free_label ascii_decimal paid_label \<and>
   renewal_due (renewal_page free_label) 0 (hd renew_selectors) 0 \<and>
   (\<exists>r. result (check_and_renew (renewal_page free_label) 0) = Inr r \<and> need_renew r) \<and>
   (\<exists>ok. Call (Click (First (hd renew_selectors))) ok
          \<in> set (events (check_and_renew (renewal_page free_label) 0))) \<and>
   (\<exists>r. result (check_and_renew (renewal_page zero_label) 0) = Inr r \<and> need_renew r) \<and>
   (\<exists>r. result (check_and_renew (renewal_page paid_label) 0) = Inr r \<and> \<not> need_renew r) \<and>
   \<not> list_ex is_click (events (check_and_renew (renewal_page paid_label) 0))"
proof -
  have due_free: "renewal_due (renewal_page free_label) 0 (hd renew_selectors) 0"
    by (simp add: renewal_due_def renewal_page_label strip_free paid_label_nonempty
          renewal_page_fields free_is_free)
  have due_zero: "renewal_due (renewal_page zero_label) 0 (hd renew_selectors) 0"
    by (simp add: renewal_due_def renewal_page_label zero_label_free renewal_page_fields)
  have not_due: "\<not> renewal_due (renewal_page paid_label) 0 s w4" for s w4
    by (simp add: renewal_due_def renewal_page_label strip_paid renewal_page_fields
          paid_not_free)
  from renewal_eligibility [of ascii_decimal free_label "renewal_page free_label" 0]
    free_is_free due_free
  have 1: "free_spec ascii_decimal free_label"
    "\<exists>r. result (check_and_renew (renewal_page free_label) 0) = Inr r \<and> need_renew r"
    "\<exists>ok. Call (Click (First (hd renew_selectors))) ok
          \<in> set (events (check_and_renew (renewal_page free_label) 0))"
    by blast+
  from renewal_eligibility [of ascii_decimal zero_label "renewal_page zero_label" 0]
    zero_label_free due_zero
  have 2: "price_is_zero ascii_decimal zero_label"
    "\<exists>r. result (check_and_renew (renewal_page zero_label) 0) = Inr r \<and> need_renew r"
    unfolding free_spec_def by blast+
  from renewal_eligibility [of ascii_decimal "lit ''Renew Server''" "renewal_page paid_label" 0]
    plain_label not_due
  have 3: "\<not> is_free_label ascii_decimal (lit ''Renew Server'')"
    "\<exists>r. result (check_and_renew (renewal_page paid_label) 0) = Inr r \<and> \<not> need_renew r"
    "\<not> list_ex is_click (events (check_and_renew (renewal_page paid_label) 0))"
    by blast+
  from renewal_eligibility [of ascii_decimal wordy_label "renewal_page paid_label" 0]
    wordy_label_segment
  have 4: "\<not> is_free_label ascii_decimal wordy_label"
    by blast
  from 1 2 3 4 free_is_free zero_label_free paid_not_free due_free show ?thesis
    by blast
qed

text \<open>
  C4. \<open>check_and_renew\<close> never raises. An exception raised by a read up to the label,
  by the click on the renewal control or by the wait after it reaches the outer
  handler, which runs in no other case: renewal is then not completed and the message
  is the failure prefix followed by the first 50 characters of the text of that
  exception. Once renewal has started, the confirmation candidates are tried in order;
  an exception inside an attempt ends that attempt only and the next candidate is
  tried. Renewal is reported as completed exactly when an attempt completes, the wait
  of 3 seconds after the click included. So the report departs from the
  specification when a confirmation control was present, visible and clicked and the
  wait after the click raised for every candidate: the control was clicked, yet the
  result says that renewal is not completed and that no confirmation button was found.
\<close>

theorem renewal_completion:
  "\<exists>r. result (check_and_renew dr w) = Inr r \<and>
     (renewed r \<longleftrightarrow>
        confirmation_clicked (events (check_and_renew dr w)) \<and>
        confirmation_settled (events (check_and_renew dr w))) \<and>
     (renewed r \<longrightarrow> message r = msg_renew_ok \<and> (\<exists>w6. renewal_started dr w w6)) \<and>
     (\<forall>e. protocol_failure dr w e \<longrightarrow>
        \<not> renewed r \<and> message r = msg_check_failed @ take 50 (str_exn e)) \<and>
     (handler_ran (events (check_and_renew dr w)) \<longleftrightarrow> (\<exists>e. protocol_failure dr w e)) \<and>
     (\<forall>w6. renewal_started dr w w6 \<longrightarrow>
        (renewed r \<longleftrightarrow> snd (confirm_spec dr confirm_selectors w6)) \<and>
        (fst (confirm_spec dr confirm_selectors w6) \<and>
         \<not> snd (confirm_spec dr confirm_selectors w6) \<longrightarrow>
           \<not> renewed r \<and> message r = msg_no_confirm) \<and>
        (\<not> renewed r \<longrightarrow> message r = msg_no_confirm))"
proof -
  from wpI [where P = "renew_post (drv_decimal dr)", OF check_and_renew_post [of dr w]]
  have "renew_post (drv_decimal dr) (result (check_and_renew dr w)) (events (check_and_renew dr w))" .
  then have "\<forall>r. result (check_and_renew dr w) = Inr r \<longrightarrow>
     (renewed r \<longleftrightarrow>
        confirmation_clicked (events (check_and_renew dr w)) \<and>
        confirmation_settled (events (check_and_renew dr w))) \<and>
     (renewed r \<longrightarrow> message r = msg_renew_ok)"
    unfolding renew_post_def by auto
  then show ?thesis
    using check_and_renew_page [of dr w] by blast
qed

lemma flaky_fields:
  "drv_wait_for_timeout flaky_settle_page 2000 w = (Inr (), w)"
  "drv_wait_for_timeout flaky_settle_page 3000 w = (Inl (Exception (lit ''Target closed'')), w)"
  "drv_count flaky_settle_page c w = (Inr 1, w)"
  "drv_inner_text flaky_settle_page c w = (Inr free_label, w)"
  "drv_is_visible flaky_settle_page c w = (Inr True, w)"
  "drv_click flaky_settle_page c w = (Inr (), w)"
  "drv_decimal flaky_settle_page = ascii_decimal"
  by (simp_all add: flaky_settle_page_def renewal_page_def quiet_def)

lemma flaky_label:
  "label_shown flaky_settle_page w = (Inr (Some (hd renew_selectors, free_label)), w)"
  unfolding label_shown_def
  apply (subst sels(1), subst sels(2), subst sels(3))
  apply (simp add: flaky_fields strip_free del: shown.simps
      add: shown_first [of flaky_settle_page _ w 1 w free_label w])
  done

lemma confirm_examples:
  "confirm_spec (renewal_page l) confirm_selectors w = (True, True)"
  "confirm_spec flaky_settle_page confirm_selectors w = (True, False)"
  by (simp_all add: confirm_selectors_def confirm_try_def renewal_page_fields flaky_fields)

lemma started_examples:
  "renewal_started (renewal_page free_label) 0 0" "renewal_started flaky_settle_page 0 0"
  unfolding renewal_started_def renewal_due_def
  by (auto simp: renewal_page_label flaky_label strip_free paid_label_nonempty
        renewal_page_fields flaky_fields free_is_free)

lemma broken_failure: "protocol_failure broken_page 0 (Exception (lit ''Target closed''))"
  by (simp add: protocol_failure_def label_shown_def broken_page_def)

text \<open>
  The theorem at a page where everything succeeds, at a page where the first wait
  raises, and at a page where every confirmation control is present, visible and
  clicked but the wait after each click raises: there the control was clicked and the
  result reports that renewal is not completed and that no confirmation button was
  found.
\<close>

theorem renewal_completion_witness:
  "(\<exists>r. result (check_and_renew (renewal_page free_label) 0) = Inr r \<and> renewed r \<and>
        message r = msg_renew_ok) \<and>
   confirmation_clicked (events (check_and_renew (renewal_page free_label) 0)) \<and>
   confirmation_settled (events (check_and_renew (renewal_page free_label) 0)) \<and>
   handler_ran (events (check_and_renew broken_page 0)) \<and>
   (\<exists>r. result (check_and_renew broken_page 0) = Inr r \<and> \<not> renewed r \<and>
        message r = msg_check_failed @ lit ''Target closed'') \<and>
   renewal_started flaky_settle_page 0 0 \<and>
   confirm_spec flaky_settle_page confirm_selectors 0 = (True, False) \<and>
   confirmation_clicked (events (check_and_renew flaky_settle_page 0)) \<and>
   \<not> handler_ran (events (check_and_renew flaky_settle_page 0)) \<and>
   (\<exists>r. result (check_and_renew flaky_settle_page 0) = Inr r \<and> \<not> renewed r \<and>
        message r = msg_no_confirm)"
proof -
  from flaky_run obtain es' where k: "check_and_renew flaky_settle_page 0 =
      (Inr (empty_result\<lparr>balance := free_label, expiration := free_label,
              price := lit ''0.00 USD'', need_renew := True, message := msg_no_confirm\<rparr>), 0, es')"
    "confirmation_clicked es'"
    by blast
  then have c: "confirmation_clicked (events (check_and_renew flaky_settle_page 0))"
    by (simp add: events_def)
  from renewal_completion [of "renewal_page free_label" 0] started_examples(1)
    confirm_examples(1) [of free_label 0]
  have 1: "\<exists>r. result (check_and_renew (renewal_page free_label) 0) = Inr r \<and> renewed r \<and>
        message r = msg_renew_ok"
    "confirmation_clicked (events (check_and_renew (renewal_page free_label) 0))"
    "confirmation_settled (events (check_and_renew (renewal_page free_label) 0))"
    by (metis snd_conv)+
  from renewal_completion [of broken_page 0] broken_failure
  have 2: "handler_ran (events (check_and_renew broken_page 0))"
    "\<exists>r. result (check_and_renew broken_page 0) = Inr r \<and> \<not> renewed r \<and>
        message r = msg_check_failed @ lit ''Target closed''"
    by (fastforce)+
  have nf: "\<not> protocol_failure flaky_settle_page 0 e" for e
    by (auto simp: protocol_failure_def renewal_due_def flaky_label flaky_fields)
  from renewal_completion [of flaky_settle_page 0] started_examples(2)
    confirm_examples(2) [of 0] nf
  have 3: "\<not> handler_ran (events (check_and_renew flaky_settle_page 0))"
    "\<exists>r. result (check_and_renew flaky_settle_page 0) = Inr r \<and> \<not> renewed r \<and>
        message r = msg_no_confirm"
    by (metis fst_conv snd_conv)+
  from 1 2 3 c started_examples(2) confirm_examples(2) [of 0] show ?thesis
    by blast
qed

section \<open>The round trip of the cookie string\<close>

lemma div_64_lower: "(2048::nat) \<le> c \<Longrightarrow> 32 \<le> c div 64"
  using div_le_mono [of 2048 c 64] by simp

lemma div_4096_upper: "(c::nat) < 65536 \<Longrightarrow> c div 4096 < 16"
  by (simp add: less_mult_imp_div_less)

lemma div_262144_upper: "(c::nat) < 1114112 \<Longrightarrow> c div 262144 < 5"
  by (simp add: less_mult_imp_div_less)

lemma mod_from_div: "(q::nat) div 64 = k \<Longrightarrow> q mod 64 = q - k * 64"
  by (metis minus_div_mult_eq_mod)

lemma second_of_ED:
  assumes "(c::nat) div 4096 = 13" "c < 55296"
  shows "c div 64 mod 64 < 32"
proof -
  have "c div 64 div 64 = 13"
    using assms(1) by (simp add: div_mult2_eq [symmetric])
  then have "c div 64 mod 64 = c div 64 - 13 * 64"
    by (rule mod_from_div)
  moreover have "c div 64 < 864"
    using assms(2) by (simp add: less_mult_imp_div_less)
  ultimately show ?thesis
    by simp
qed

lemma second_of_F0:
  assumes "(65536::nat) \<le> c" "c div 262144 = 0"
  shows "16 \<le> c div 4096 mod 64"
proof -
  have "c div 4096 div 64 = 0"
    using assms(2) by (simp add: div_mult2_eq [symmetric])
  then have "c div 4096 mod 64 = c div 4096 - 0 * 64"
    by (rule mod_from_div)
  moreover have "16 \<le> c div 4096"
    using div_le_mono [OF assms(1), of 4096] by simp
  ultimately show ?thesis
    by simp
qed

lemma second_of_F4:
  assumes "(c::nat) < 1114112" "c div 262144 = 4"
  shows "c div 4096 mod 64 < 16"
proof -
  have "c div 4096 div 64 = 4"
    using assms(2) by (simp add: div_mult2_eq [symmetric])
  then have "c div 4096 mod 64 = c div 4096 - 4 * 64"
    by (rule mod_from_div)
  moreover have "c div 4096 < 272"
    using assms(1) by (simp add: less_mult_imp_div_less)
  ultimately show ?thesis
    by simp
qed

lemma lead_ED: "(c::nat) div 4096 = 13 \<Longrightarrow> c < 57344"
  using dividend_less_times_div [of 4096 c] by simp

lemma rebuild_2: "(c::nat) div 64 * 64 + c mod 64 = c"
  by simp

lemma split_64: "(q::nat) div 64 * (64 * n) + q mod 64 * n = q * n"
proof -
  have "q * n = (q div 64 * 64 + q mod 64) * n"
    by simp
  also have "\<dots> = q div 64 * (64 * n) + q mod 64 * n"
    by (simp only: add_mult_distrib mult.assoc)
  finally show ?thesis
    by (rule sym)
qed

lemma rebuild_3: "(c::nat) div 4096 * 4096 + c div 64 mod 64 * 64 + c mod 64 = c"
proof -
  have "c div 4096 = c div 64 div 64"
    by (simp add: div_mult2_eq [symmetric])
  then have "c div 4096 * 4096 + c div 64 mod 64 * 64 = c div 64 * 64"
    using split_64 [of "c div 64" 64] by simp
  then show ?thesis
    by simp
qed

lemma rebuild_4: "(c::nat) div 262144 * 262144 + c div 4096 mod 64 * 4096 + c div 64 mod 64 * 64 + c mod 64 = c"
proof -
  have "c div 262144 = c div 4096 div 64"
    by (simp add: div_mult2_eq [symmetric])
  then have "c div 262144 * 262144 + c div 4096 mod 64 * 4096 = c div 4096 * 4096"
    using split_64 [of "c div 4096" 4096] by simp
  then show ?thesis
    using rebuild_3 [of c] by simp
qed

lemma utf8_decode_2:
  "0xC2 \<le> b \<Longrightarrow> b < 0xE0 \<Longrightarrow> is_cont c1 \<Longrightarrow>
   utf8_decode (b # c1 # bs) = ((b - 0xC0) * 64 + (c1 - 0x80)) # utf8_decode bs"
  by simp

lemma utf8_decode_3:
  "0xE0 \<le> b \<Longrightarrow> b < 0xF0 \<Longrightarrow> second_ok b c1 \<Longrightarrow> is_cont c2 \<Longrightarrow>
   utf8_decode (b # c1 # c2 # bs) =
     ((b - 0xE0) * 4096 + (c1 - 0x80) * 64 + (c2 - 0x80)) # utf8_decode bs"
  by simp

lemma utf8_decode_4:
  "0xF0 \<le> b \<Longrightarrow> b < 0xF5 \<Longrightarrow> second_ok b c1 \<Longrightarrow> is_cont c2 \<Longrightarrow> is_cont c3 \<Longrightarrow>
   utf8_decode (b # c1 # c2 # c3 # bs) =
     ((b - 0xF0) * 262144 + (c1 - 0x80) * 4096 + (c2 - 0x80) * 64 + (c3 - 0x80)) # utf8_decode bs"
  by simp

lemma is_cont_low: "is_cont (0x80 + n mod 64)"
  by (simp add: is_cont_def)

lemma utf8_decode_char:
  assumes "c < 0x110000" "\<not> is_surrogate c"
  shows "utf8_decode (utf8_char c @ bs) = c # utf8_decode bs"
proof -
  consider "c < 0x80" | "0x80 \<le> c" "c < 0x800" | "0x800 \<le> c" "c < 0x10000"
    | "0x10000 \<le> c" "c < 0x110000"
    using assms(1) by linarith
  then show ?thesis
  proof cases
    case 1
    then show ?thesis by (simp add: utf8_char_def)
  next
    case 2
    have "2 \<le> c div 64"
      using div_le_mono [OF 2(1), of 64] by simp
    moreover have "c div 64 < 32"
      using 2(2) by (simp add: less_mult_imp_div_less)
    ultimately have "utf8_decode ((0xC0 + c div 64) # (0x80 + c mod 64) # bs) =
          ((0xC0 + c div 64 - 0xC0) * 64 + (0x80 + c mod 64 - 0x80)) # utf8_decode bs"
      by (intro utf8_decode_2 is_cont_low) simp_all
    then have "utf8_decode ((0xC0 + c div 64) # (0x80 + c mod 64) # bs) = c # utf8_decode bs"
      using rebuild_2 [of c] by simp
    moreover have "utf8_char c = [0xC0 + c div 64, 0x80 + c mod 64]"
      using 2 by (simp add: utf8_char_def)
    ultimately show ?thesis
      by simp
  next
    case 3
    have u: "c div 4096 < 16"
      using 3(2) by (rule div_4096_upper)
    have "second_ok (0xE0 + c div 4096) (0x80 + c div 64 mod 64)"
      unfolding second_ok_def
    proof (intro conjI impI)
      show "is_cont (0x80 + c div 64 mod 64)"
        by (rule is_cont_low)
      show "0xA0 \<le> 0x80 + c div 64 mod 64" if "0xE0 + c div 4096 = 0xE0"
      proof -
        have "c div 64 div 64 = 0"
          using that by (simp add: div_mult2_eq [symmetric])
        then have "c div 64 mod 64 = c div 64 - 0 * 64"
          by (rule mod_from_div)
        then show ?thesis
          using div_64_lower [OF 3(1)] by simp
      qed
      show "0x80 + c div 64 mod 64 < 0xA0" if "0xE0 + c div 4096 = 0xED"
      proof -
        have d: "c div 4096 = 13"
          using that by simp
        have "c < 57344"
          using d by (rule lead_ED)
        then have "c < 55296"
          using assms(2) 3 by (simp add: is_surrogate_def)
        from second_of_ED [OF d this] show ?thesis
          by simp
      qed
      show "0x90 \<le> 0x80 + c div 64 mod 64" if "0xE0 + c div 4096 = 0xF0"
        using that u by simp
      show "0x80 + c div 64 mod 64 < 0x90" if "0xE0 + c div 4096 = 0xF4"
        using that u by simp
    qed
    then have "utf8_decode ((0xE0 + c div 4096) # (0x80 + c div 64 mod 64) #
            (0x80 + c mod 64) # bs) =
          ((0xE0 + c div 4096 - 0xE0) * 4096 + (0x80 + c div 64 mod 64 - 0x80) * 64 +
           (0x80 + c mod 64 - 0x80)) # utf8_decode bs"
      using u by (intro utf8_decode_3 is_cont_low) simp_all
    then have "utf8_decode ((0xE0 + c div 4096) # (0x80 + c div 64 mod 64) #
            (0x80 + c mod 64) # bs) = c # utf8_decode bs"
      using rebuild_3 [of c] by simp
    moreover have "utf8_char c = [0xE0 + c div 4096, 0x80 + c div 64 mod 64, 0x80 + c mod 64]"
      using 3 by (simp add: utf8_char_def)
    ultimately show ?thesis
      by simp
  next
    case 4
    have u: "c div 262144 < 5"
      using 4(2) by (rule div_262144_upper)
    have "second_ok (0xF0 + c div 262144) (0x80 + c div 4096 mod 64)"
      unfolding second_ok_def
    proof (intro conjI impI)
      show "is_cont (0x80 + c div 4096 mod 64)"
        by (rule is_cont_low)
      show "0xA0 \<le> 0x80 + c div 4096 mod 64" if "0xF0 + c div 262144 = 0xE0"
        using that by simp
      show "0x80 + c div 4096 mod 64 < 0xA0" if "0xF0 + c div 262144 = 0xED"
        using that by simp
      show "0x90 \<le> 0x80 + c div 4096 mod 64" if "0xF0 + c div 262144 = 0xF0"
        using second_of_F0 [OF 4(1)] that by simp
      show "0x80 + c div 4096 mod 64 < 0x90" if "0xF0 + c div 262144 = 0xF4"
        using second_of_F4 [OF 4(2)] that by simp
    qed
    then have "utf8_decode ((0xF0 + c div 262144) # (0x80 + c div 4096 mod 64) #
            (0x80 + c div 64 mod 64) # (0x80 + c mod 64) # bs) =
          ((0xF0 + c div 262144 - 0xF0) * 262144 + (0x80 + c div 4096 mod 64 - 0x80) * 4096 +
           (0x80 + c div 64 mod 64 - 0x80) * 64 + (0x80 + c mod 64 - 0x80)) # utf8_decode bs"
      using u by (intro utf8_decode_4 is_cont_low) simp_all
    then have "utf8_decode ((0xF0 + c div 262144) # (0x80 + c div 4096 mod 64) #
            (0x80 + c div 64 mod 64) # (0x80 + c mod 64) # bs) = c # utf8_decode bs"
      using rebuild_4 [of c] by simp
    moreover have "utf8_char c = [0xF0 + c div 262144, 0x80 + c div 4096 mod 64,
        0x80 + c div 64 mod 64, 0x80 + c mod 64]"
      using 4 by (simp add: utf8_char_def)
    ultimately show ?thesis
      by simp
  qed
qed

lemma utf8_decode_encode:
  "wf_str v \<Longrightarrow> \<not> list_ex is_surrogate v \<Longrightarrow> utf8_decode (concat (map utf8_char v)) = v"
  by (induction v) (simp_all add: wf_str_def utf8_decode_char del: utf8_decode.simps(2))

lemma utf8_char_bytes: "c < 0x110000 \<Longrightarrow> list_all (\<lambda>b. b < 256) (utf8_char c)"
proof -
  assume c: "c < 0x110000"
  have "c div 64 < 32" if "c < 0x800"
    using that by (simp add: less_mult_imp_div_less)
  moreover have "c div 4096 < 16" if "c < 0x10000"
    using that by (rule div_4096_upper)
  moreover have "c div 262144 < 5"
    using c by (rule div_262144_upper)
  moreover have "n mod 64 < 64" for n :: nat
    by simp
  ultimately show ?thesis
    by (auto simp: utf8_char_def intro: add_strict_mono less_trans)
qed

lemma hex_val_upper: "n < 16 \<Longrightarrow> hex_val (hex_upper n) = Some n"
  by (auto simp: hex_val_def hex_upper_def)

lemma unquote_to_bytes_plain:
  assumes "c \<noteq> 37"
  shows "unquote_to_bytes (c # rest) = c # unquote_to_bytes rest"
proof (cases rest)
  case Nil
  then show ?thesis by simp
next
  case (Cons h1 r1)
  then show ?thesis
    using assms by (cases r1; cases "tl r1") auto
qed

lemma unquote_quote_byte:
  assumes "b < 256"
  shows "unquote_to_bytes (quote_byte b @ rest) = b # unquote_to_bytes rest"
proof (cases "always_safe b")
  case True
  then have "b \<noteq> 37"
    by (auto simp: always_safe_def)
  then show ?thesis
    using True by (simp add: quote_byte_def unquote_to_bytes_plain del: unquote_to_bytes.simps(1))
next
  case False
  have "b div 16 < 16"
    using assms by (simp add: less_mult_imp_div_less)
  then have "hex_val (hex_upper (b div 16)) = Some (b div 16)"
    "hex_val (hex_upper (b mod 16)) = Some (b mod 16)"
    by (simp_all add: hex_val_upper)
  then show ?thesis
    using False by (simp add: quote_byte_def)
qed

lemma unquote_quote_bytes:
  "list_all (\<lambda>b. b < 256) bs \<Longrightarrow> unquote_to_bytes (concat (map quote_byte bs)) = bs"
  by (induction bs) (simp_all add: unquote_quote_byte del: unquote_to_bytes.simps(1))

lemma utf8_bytes: "wf_str v \<Longrightarrow> list_all (\<lambda>b. b < 256) (concat (map utf8_char v))"
  by (induction v) (simp_all add: wf_str_def utf8_char_bytes)

text \<open>The characters of a quoted string: unreserved characters, \<open>%\<close> and hexadecimal digits.\<close>

lemma quote_byte_chars:
  "b < 256 \<Longrightarrow> list_all (\<lambda>c. always_safe c \<or> c = 37 \<or> (48 \<le> c \<and> c \<le> 57) \<or> (65 \<le> c \<and> c \<le> 70))
     (quote_byte b)"
proof -
  assume "b < 256"
  then have "b div 16 < 16"
    by (simp add: less_mult_imp_div_less)
  moreover have "b mod 16 < 16"
    by simp
  ultimately show ?thesis
    by (auto simp: quote_byte_def hex_upper_def)
qed

lemma quoted_chars:
  "list_all (\<lambda>b. b < 256) bs \<Longrightarrow>
   list_all (\<lambda>c. always_safe c \<or> c = 37 \<or> (48 \<le> c \<and> c \<le> 57) \<or> (65 \<le> c \<and> c \<le> 70))
     (concat (map quote_byte bs))"
  by (induction bs) (simp_all add: quote_byte_chars)

lemma percent_encoded_eq:
  "\<not> list_ex is_surrogate v \<Longrightarrow>
   percent_encoded v = concat (map quote_byte (concat (map utf8_char v)))"
  by (simp add: percent_encoded_def quote_ok)

lemma percent_encoded_chars:
  assumes "wf_str v" "\<not> list_ex is_surrogate v"
  shows "list_all (\<lambda>c. always_safe c \<or> c = 37 \<or> (48 \<le> c \<and> c \<le> 57) \<or> (65 \<le> c \<and> c \<le> 70))
           (percent_encoded v)"
  using assms by (simp add: percent_encoded_eq quoted_chars utf8_bytes)

lemma unquote_ascii: "list_all is_ascii s \<Longrightarrow> unquote s = utf8_decode (unquote_to_bytes s)"
proof (cases s)
  case Nil
  then show ?thesis by (simp add: unquote.simps)
next
  case (Cons c cs)
  assume a: "list_all is_ascii s"
  then have tw: "takeWhile is_ascii cs = cs" "dropWhile is_ascii cs = []"
    using Cons by (simp_all add: list_all_iff)
  show ?thesis
    using a Cons by (subst unquote.simps) (simp add: tw unquote.simps [of "[]"])
qed

lemma unquote_percent_encoded:
  assumes "wf_str v" "\<not> list_ex is_surrogate v"
  shows "unquote (percent_encoded v) = v"
proof -
  have "list_all is_ascii (percent_encoded v)"
    using percent_encoded_chars [OF assms]
    by (auto simp: list_all_iff is_ascii_def always_safe_def)
  then have "unquote (percent_encoded v) = utf8_decode (unquote_to_bytes (percent_encoded v))"
    by (rule unquote_ascii)
  then show ?thesis
    using assms by (simp add: percent_encoded_eq unquote_quote_bytes utf8_bytes utf8_decode_encode)
qed

lemma strip_edges:
  assumes "s \<noteq> [] \<Longrightarrow> \<not> is_space (hd s) \<and> \<not> is_space (last s)"
  shows "strip s = s"
proof (cases s)
  case Nil
  then show ?thesis by (simp add: strip_def)
next
  case (Cons c cs)
  with assms have h: "\<not> is_space (hd s)" and l: "\<not> is_space (last s)"
    by auto
  have 1: "dropWhile is_space s = s"
    using h Cons by simp
  have "hd (rev s) = last s"
    using Cons by (simp add: hd_rev)
  then have "dropWhile is_space (rev s) = rev s"
    using l Cons by (cases "rev s") auto
  with 1 show ?thesis by (simp add: strip_def)
qed

lemma strip_fixed_edges:
  assumes "strip s = s" "s \<noteq> []"
  shows "\<not> is_space (hd s) \<and> \<not> is_space (last s)"
proof -
  have len: "length (strip s) \<le> length (dropWhile is_space s)"
    unfolding strip_def by (metis length_dropWhile_le length_rev)
  have h: "\<not> is_space (hd s)"
  proof
    assume "is_space (hd s)"
    then have "dropWhile is_space s = dropWhile is_space (tl s)"
      using assms(2) by (cases s) auto
    then have "length (dropWhile is_space s) \<le> length (tl s)"
      using length_dropWhile_le [of is_space "tl s"] by simp
    with len assms show False by (cases s) auto
  qed
  then have t: "dropWhile is_space s = s"
    using assms(2) by (cases s) auto
  have l: "\<not> is_space (last s)"
  proof
    assume a: "is_space (last s)"
    obtain c cs where r: "rev s = c # cs"
      using assms(2) by (cases "rev s") auto
    then have "c = last s"
      using assms(2) by (metis hd_rev list.sel(1))
    with a have "dropWhile is_space (c # cs) = dropWhile is_space cs"
      by simp
    then have "dropWhile is_space (rev s) = dropWhile is_space cs"
      unfolding r .
    then have "length (strip s) \<le> length cs"
      by (simp add: strip_def t length_dropWhile_le)
    moreover have "length s = Suc (length cs)"
      using r by (metis length_rev length_Cons)
    ultimately show False using assms(1) by simp
  qed
  from h l show ?thesis ..
qed

lemma strip_space_Cons: "is_space c \<Longrightarrow> strip (c # s) = strip s"
  by (simp add: strip_def)

lemma encoded_plain:
  assumes "wf_str v" "\<not> list_ex is_surrogate v"
  shows "list_all (\<lambda>c. \<not> is_space c \<and> c \<noteq> 59) (percent_encoded v)"
  using percent_encoded_chars [OF assms]
  by (auto simp: list_all_iff always_safe_def is_space_def)

lemma strip_item:
  assumes "strip n = n" "list_all (\<lambda>c. \<not> is_space c \<and> c \<noteq> 59) q"
  shows "strip (n @ 61 # q) = n @ 61 # q"
proof (rule strip_edges)
  have e: "\<not> is_space 61"
    by (simp add: is_space_def)
  have "\<not> is_space (hd (n @ 61 # q))"
    using strip_fixed_edges [OF assms(1)] e by (cases n) auto
  moreover have "\<not> is_space (last (n @ 61 # q))"
    using assms(2) e by (cases q rule: rev_cases) auto
  ultimately show "\<not> is_space (hd (n @ 61 # q)) \<and> \<not> is_space (last (n @ 61 # q))" ..
qed

lemma strip_encoded:
  assumes "list_all (\<lambda>c. \<not> is_space c \<and> c \<noteq> 59) q"
  shows "strip q = q"
proof (rule strip_edges)
  assume "q \<noteq> []"
  then have "hd q \<in> set q" "last q \<in> set q"
    by simp_all
  with assms show "\<not> is_space (hd q) \<and> \<not> is_space (last q)"
    by (auto simp: list_all_iff)
qed

lemma split_acc_sep:
  "59 \<notin> set x \<Longrightarrow> split_acc [59] acc (x @ 59 # rest) = (rev acc @ x) # split_acc [59] [] rest"
proof (induction x arbitrary: acc)
  case Nil
  show ?case by (subst split_acc.simps) (simp add: startswith_def)
next
  case (Cons c cs)
  then show ?case by (subst split_acc.simps) (simp add: startswith_def)
qed

lemma split_join:
  "\<forall>y\<in>set (x # xs). 59 \<notin> set y \<Longrightarrow> 59 \<notin> set p \<Longrightarrow>
   split_acc [59] [] (p @ join [59, 32] (x # xs)) = (p @ x) # map ((#) 32) xs"
proof (induction xs arbitrary: p x)
  case Nil
  then show ?case by (simp add: split_acc_no_sep)
next
  case (Cons y ys)
  have "split_acc [59] [] ((p @ x) @ 59 # ([32] @ join [59, 32] (y # ys))) =
      (rev [] @ p @ x) # split_acc [59] [] ([32] @ join [59, 32] (y # ys))"
    using Cons.prems by (intro split_acc_sep) simp
  moreover have "split_acc [59] [] ([32] @ join [59, 32] (y # ys)) = ([32] @ y) # map ((#) 32) ys"
    using Cons.prems by (intro Cons.IH) simp_all
  ultimately show ?case by simp
qed

lemma join_nonempty: "x \<noteq> [] \<Longrightarrow> join sep (x # xs) \<noteq> []"
  by (cases xs) auto

lemma parse_item:
  assumes "61 \<notin> set n" "strip n = n" "wf_str v" "\<not> list_ex is_surrogate v" "p = [] \<or> p = [32]"
  shows "map_option (\<lambda>c. (cookie_name c, cookie_value c))
           (parse_cookie_item domain (p @ n @ 61 # percent_encoded v)) = Some (n, v)"
proof -
  let ?q = "percent_encoded v"
  have q: "list_all (\<lambda>c. \<not> is_space c \<and> c \<noteq> 59) ?q"
    using assms(3,4) by (rule encoded_plain)
  have "strip (p @ n @ 61 # ?q) = strip (n @ 61 # ?q)"
    using assms(5) by (auto simp: strip_space_Cons is_space_def)
  then have s: "strip (p @ n @ 61 # ?q) = n @ 61 # ?q"
    by (simp add: strip_item [OF assms(2) q])
  have c: "contains [61] (n @ 61 # ?q)"
    by (simp add: contains_single)
  have "takeWhile (\<lambda>x. x \<noteq> 61) (n @ 61 # ?q) = n"
    using assms(1) by (subst takeWhile_append2) auto
  then have i: "index_of 61 (n @ 61 # ?q) = length n"
    by (simp add: index_of_def)
  show ?thesis
    by (simp add: parse_cookie_item_def Let_def s c i assms(2) strip_encoded [OF q]
        unquote_percent_encoded [OF assms(3,4)])
qed

lemma map_filter_map:
  "\<forall>c\<in>set cs. map_option g (f (k c)) = Some (h c) \<Longrightarrow>
   map g (List.map_filter f (map k cs)) = map h cs"
  by (induction cs) (auto simp: map_filter_simps split: option.splits)

lemma parse_cookie_string_result:
  "result (parse_cookie_string s domain w) = Inr (parse_cookies s domain)"
proof -
  have "wp (parse_cookie_string s domain) (\<lambda>r w' es. r = Inr (parse_cookies s domain)) w"
    by (simp add: parse_cookie_string_def parse_cookies_def)
  from wpI [where P = "\<lambda>r es. r = Inr (parse_cookies s domain)", OF this] show ?thesis .
qed

lemma parse_serialization:
  assumes "\<forall>c\<in>set cookies. 61 \<notin> set (cookie_name c) \<and> 59 \<notin> set (cookie_name c) \<and>
             strip (cookie_name c) = cookie_name c \<and> wf_str (cookie_value c) \<and>
             \<not> list_ex is_surrogate (cookie_value c)"
  shows "map (\<lambda>c. (cookie_name c, cookie_value c)) (parse_cookies (serialization cookies) domain) =
         map (\<lambda>c. (cookie_name c, cookie_value c)) (filtered_sorted cookies)"
proof (cases "filtered_sorted cookies")
  case Nil
  then have "serialization cookies = []"
    using join_filtered_sorted [of cookies] by simp
  with Nil show ?thesis by (simp add: parse_cookies_def)
next
  case (Cons c cs)
  let ?part = "\<lambda>c. cookie_name c @ 61 # percent_encoded (cookie_value c)"
  have sub: "set (c # cs) \<subseteq> set cookies"
    using Cons [symmetric] by (simp add: filtered_sorted_def)
  have ok: "\<forall>c\<in>set (c # cs). 61 \<notin> set (cookie_name c) \<and> 59 \<notin> set (cookie_name c) \<and>
             strip (cookie_name c) = cookie_name c \<and> wf_str (cookie_value c) \<and>
             \<not> list_ex is_surrogate (cookie_value c)"
    using assms sub by blast
  have ser: "serialization cookies = join [59, 32] (?part c # map ?part cs)"
    using join_filtered_sorted [of cookies] Cons by simp
  then have ne: "serialization cookies \<noteq> []"
    by (simp add: join_nonempty)
  have "\<forall>y\<in>set (?part c # map ?part cs). 59 \<notin> set y"
  proof
    fix y assume "y \<in> set (?part c # map ?part cs)"
    then obtain d where d: "d \<in> set (c # cs)" "y = ?part d"
      by auto
    with ok have "list_all (\<lambda>c. \<not> is_space c \<and> c \<noteq> 59) (percent_encoded (cookie_value d))"
      by (intro encoded_plain) auto
    with d ok show "59 \<notin> set y"
      by (auto simp: list_all_iff)
  qed
  then have "split_acc [59] [] ([] @ join [59, 32] (?part c # map ?part cs)) =
      ([] @ ?part c) # map ((#) 32) (map ?part cs)"
    by (intro split_join) simp_all
  then have sp: "split (serialization cookies) [59] = ?part c # map (\<lambda>c. 32 # ?part c) cs"
    by (simp add: split_def ser comp_def)
  have first: "map_option (\<lambda>c. (cookie_name c, cookie_value c))
      (parse_cookie_item domain ([] @ ?part c)) = Some (cookie_name c, cookie_value c)"
    using ok by (intro parse_item) simp_all
  have "\<forall>d\<in>set cs. map_option (\<lambda>c. (cookie_name c, cookie_value c))
      (parse_cookie_item domain ([32] @ ?part d)) = Some (cookie_name d, cookie_value d)"
    using ok by (intro ballI parse_item) simp_all
  then have rest: "map (\<lambda>c. (cookie_name c, cookie_value c))
      (List.map_filter (parse_cookie_item domain) (map (\<lambda>c. 32 # ?part c) cs)) =
      map (\<lambda>c. (cookie_name c, cookie_value c)) cs"
    by (intro map_filter_map) simp
  from first obtain c' where c': "parse_cookie_item domain (?part c) = Some c'"
      "cookie_name c' = cookie_name c" "cookie_value c' = cookie_value c"
    by auto
  show ?thesis
    using ne by (simp add: parse_cookies_def sp Cons map_filter_simps c' rest)
qed

lemma example_filtered_sorted:
  "filtered_sorted example_tokens =
     [example_cookie (lit ''remember_web_x'') (lit ''a''), example_cookie (lit ''_ga'') (lit ''b c'')]"
proof -
  have "filter recognized example_tokens =
      [example_cookie (lit ''_ga'') (lit ''b c''), example_cookie (lit ''remember_web_x'') (lit ''a'')]"
    by (simp add: example_tokens_def recognized_def important_names_def example_cookie_def
        startswith_def)
  moreover have "priority_order
      [example_cookie (lit ''_ga'') (lit ''b c''), example_cookie (lit ''remember_web_x'') (lit ''a'')] =
      [example_cookie (lit ''remember_web_x'') (lit ''a''), example_cookie (lit ''_ga'') (lit ''b c'')]"
    by (simp add: priority_order_def is_remember_def is_session_def is_xsrf_def is_cf_def
        example_cookie_def startswith_def)
  ultimately show ?thesis
    by (simp add: filtered_sorted_priority)
qed

lemma example_tokens_plain:
  "list_all (\<lambda>c. 61 \<notin> set (cookie_name c) \<and> 59 \<notin> set (cookie_name c) \<and>
                strip (cookie_name c) = cookie_name c \<and> wf_str (cookie_value c) \<and>
                \<not> list_ex is_surrogate (cookie_value c)) example_tokens"
  by (simp add: example_tokens_def example_cookie_def strip_def is_space_def wf_str_def
      is_surrogate_def)

lemma padded_filtered_sorted: "filtered_sorted [padded_token] = [padded_token]"
  by (simp add: filtered_sorted_def important_recognized [abs_def] recognized_def
      important_names_def padded_token_def example_cookie_def startswith_def)

lemma padded_serialization: "serialization [padded_token] = lit ''_ga =a''"
  using join_filtered_sorted [of "[padded_token]"] example_encoded_2
  by (simp add: padded_filtered_sorted) (simp add: padded_token_def example_cookie_def)

lemma padded_parsed:
  "map (\<lambda>c. (cookie_name c, cookie_value c))
     (parse_cookies (lit ''_ga =a'') (lit ''panel.bytte.cloud'')) = [(lit ''_ga'', lit ''a'')]"
proof -
  have u: "unquote [97] = [97]"
    using unquote_percent_encoded [of "lit ''a''"] example_encoded_2
    by (simp add: wf_str_def is_surrogate_def)
  have s: "split_acc [59] [] [95, 103, 97, 32, 61, 97] = [95, 103, 97, 32, 61, 97] # []"
    by (simp add: split_acc_no_sep)
  show ?thesis
    by (simp add: parse_cookies_def split_def s map_filter_simps parse_cookie_item_def Let_def
        strip_def is_space_def index_of_def startswith_def u)
qed

text \<open>
  C10. The string that \<open>save_cookies_for_update\<close> returns parses back, with
  \<open>parse_cookie_string\<close>, to the names and values of the important cookies in priority
  order, provided that no name contains \<open>=\<close> or \<open>;\<close> or begins or ends with white space and
  that every value is a string of Unicode scalar values. Under these conditions the serializer
  returns whenever the file can be written.
\<close>

theorem serialization_round_trip:
  assumes "\<forall>c\<in>set cookies. 61 \<notin> set (cookie_name c) \<and> 59 \<notin> set (cookie_name c) \<and>
             strip (cookie_name c) = cookie_name c \<and> wf_str (cookie_value c) \<and>
             \<not> list_ex is_surrogate (cookie_value c)"
  shows "(drv_write_text dr new_cookies_file (serialization cookies) w = (Inr (), w1) \<longrightarrow>
            result (save_cookies_for_update dr cookies w) = Inr (serialization cookies)) \<and>
         (result (save_cookies_for_update dr cookies w) = Inr s \<longrightarrow>
            (\<exists>cs. result (parse_cookie_string s domain w2) = Inr cs \<and>
                  map (\<lambda>c. (cookie_name c, cookie_value c)) cs =
                  map (\<lambda>c. (cookie_name c, cookie_value c)) (filtered_sorted cookies)))"
proof (intro conjI impI)
  assume "drv_write_text dr new_cookies_file (serialization cookies) w = (Inr (), w1)"
  with assms show "result (save_cookies_for_update dr cookies w) = Inr (serialization cookies)"
    by (intro save_cookies_ok) auto
next
  assume "result (save_cookies_for_update dr cookies w) = Inr s"
  then have "s = serialization cookies"
    by (rule save_cookies_result)
  with parse_serialization [OF assms, of domain]
  show "\<exists>cs. result (parse_cookie_string s domain w2) = Inr cs \<and>
             map (\<lambda>c. (cookie_name c, cookie_value c)) cs =
             map (\<lambda>c. (cookie_name c, cookie_value c)) (filtered_sorted cookies)"
    by (simp add: parse_cookie_string_result)
qed

theorem serialization_round_trip_witness:
  "list_all (\<lambda>c. 61 \<notin> set (cookie_name c) \<and> 59 \<notin> set (cookie_name c) \<and>
                strip (cookie_name c) = cookie_name c \<and> wf_str (cookie_value c) \<and>
                \<not> list_ex is_surrogate (cookie_value c)) example_tokens \<and>
   result (save_cookies_for_update quiet example_tokens 0) = Inr (lit ''remember_web_x=a; _ga=b%20c'') \<and>
   (\<exists>cs. result (parse_cookie_string (lit ''remember_web_x=a; _ga=b%20c'')
                     (lit ''panel.bytte.cloud'') (0::nat)) =
           Inr cs \<and>
         map (\<lambda>c. (cookie_name c, cookie_value c)) cs =
           [(lit ''remember_web_x'', lit ''a''), (lit ''_ga'', lit ''b c'')])"
proof -
  have h: "\<forall>c\<in>set example_tokens. 61 \<notin> set (cookie_name c) \<and> 59 \<notin> set (cookie_name c) \<and>
             strip (cookie_name c) = cookie_name c \<and> wf_str (cookie_value c) \<and>
             \<not> list_ex is_surrogate (cookie_value c)"
    using example_tokens_plain by (simp only: list_all_iff)
  have b: "drv_write_text quiet new_cookies_file (serialization example_tokens) 0 = (Inr (), 0)"
    by (simp add: quiet_def)
  note t = serialization_round_trip [OF h, of quiet 0 0 "serialization example_tokens"
      "lit ''panel.bytte.cloud''" "0::nat"]
  from t b have 1: "result (save_cookies_for_update quiet example_tokens 0) =
      Inr (serialization example_tokens)"
    by blast
  with t have "\<exists>cs. result (parse_cookie_string (serialization example_tokens)
        (lit ''panel.bytte.cloud'') (0::nat)) = Inr cs \<and>
      map (\<lambda>c. (cookie_name c, cookie_value c)) cs =
      map (\<lambda>c. (cookie_name c, cookie_value c)) (filtered_sorted example_tokens)"
    by blast
  then have 2: "\<exists>cs. result (parse_cookie_string (serialization example_tokens)
        (lit ''panel.bytte.cloud'') (0::nat)) = Inr cs \<and>
      map (\<lambda>c. (cookie_name c, cookie_value c)) cs =
      [(lit ''remember_web_x'', lit ''a''), (lit ''_ga'', lit ''b c'')]"
    by (simp add: example_filtered_sorted example_cookie_def)
  from example_tokens_plain 1 2 show ?thesis
    unfolding example_serialization by blast
qed

text \<open>
  A name that ends in white space satisfies the condition on \<open>=\<close> and \<open>;\<close> but is not
  recovered: the parser strips it.
\<close>

theorem serialization_round_trip_counterexample:
  "61 \<notin> set (cookie_name padded_token) \<and> 59 \<notin> set (cookie_name padded_token) \<and>
   result (save_cookies_for_update quiet [padded_token] 0) = Inr (lit ''_ga =a'') \<and>
   result (parse_cookie_string (lit ''_ga =a'') (lit ''panel.bytte.cloud'') (0::nat)) =
     Inr (parse_cookies (lit ''_ga =a'') (lit ''panel.bytte.cloud'')) \<and>
   map (\<lambda>c. (cookie_name c, cookie_value c))
     (parse_cookies (lit ''_ga =a'') (lit ''panel.bytte.cloud'')) = [(lit ''_ga'', lit ''a'')] \<and>
   map (\<lambda>c. (cookie_name c, cookie_value c)) (filtered_sorted [padded_token]) =
     [(lit ''_ga '', lit ''a'')]"
proof -
  have b: "drv_write_text quiet new_cookies_file (serialization [padded_token]) 0 = (Inr (), 0)"
    by (simp add: quiet_def)
  have "\<forall>c\<in>set [padded_token]. \<not> list_ex is_surrogate (cookie_value c)"
    by (simp add: padded_token_def example_cookie_def is_surrogate_def)
  from save_cookies_ok [OF this b]
  have 1: "result (save_cookies_for_update quiet [padded_token] 0) = Inr (lit ''_ga =a'')"
    unfolding padded_serialization .
  have 2: "61 \<notin> set (cookie_name padded_token) \<and> 59 \<notin> set (cookie_name padded_token)"
    by (simp add: padded_token_def example_cookie_def)
  have 3: "map (\<lambda>c. (cookie_name c, cookie_value c)) (filtered_sorted [padded_token]) =
     [(lit ''_ga '', lit ''a'')]"
    by (simp add: padded_filtered_sorted) (simp add: padded_token_def example_cookie_def)
  from 1 2 3 padded_parsed parse_cookie_string_result
    [of "lit ''_ga =a''" "lit ''panel.bytte.cloud''" "0::nat"]
  show ?thesis by blast
qed

end
